theory Spec2Isabelle
  imports Main "HOL-Library.Word"
begin

section \<open>JavaScript strings and values\<close>

text \<open>
  A JavaScript string is a sequence of 16-bit code units; the regular expressions of the
  program carry no \<open>u\<close> flag, so they work on code units as well. A value that may be
  \<open>undefined\<close> (an unmatched capture, a property missing from an object) is a \<open>js_val\<close>.
\<close>

type_synonym code_unit = "16 word"
type_synonym jsstring = "code_unit list"

definition cu :: "char \<Rightarrow> code_unit" where
  "cu c = of_nat (of_char c)"

definition ascii :: "string \<Rightarrow> jsstring" where
  "ascii s = map cu s"

datatype js_val = Undefined | Str jsstring

text \<open>\<open>x || "lit"\<close>: the left operand unless it is falsy (\<open>undefined\<close> or the empty string).\<close>

definition or_str :: "js_val \<Rightarrow> jsstring \<Rightarrow> jsstring" where
  "or_str x lit = (case x of Undefined \<Rightarrow> lit | Str s \<Rightarrow> if s = [] then lit else s)"

text \<open>\<open>${x}\<close> inside a template literal.\<close>

definition template :: "js_val \<Rightarrow> jsstring" where
  "template x = (case x of Undefined \<Rightarrow> ascii ''undefined'' | Str s \<Rightarrow> s)"

text \<open>Reading index \<open>i\<close> of an array: \<open>undefined\<close> beyond its length.\<close>

definition at_index :: "js_val list \<Rightarrow> nat \<Rightarrow> js_val" where
  "at_index xs i = (if i < length xs then xs ! i else Undefined)"

text \<open>
  The code units ECMAScript calls LineTerminator and WhiteSpace. The class \<open>\s\<close> and
  \<open>String.prototype.trim\<close> use their union; \<open>.\<close> (without the \<open>s\<close> flag) excludes the
  line terminators.
\<close>

definition is_line_terminator :: "code_unit \<Rightarrow> bool" where
  "is_line_terminator c = (c = 0x000A \<or> c = 0x000D \<or> c = 0x2028 \<or> c = 0x2029)"

definition is_white_space :: "code_unit \<Rightarrow> bool" where
  "is_white_space c =
     (c = 0x0009 \<or> c = 0x000B \<or> c = 0x000C \<or> c = 0x0020 \<or> c = 0x00A0 \<or> c = 0x1680
      \<or> (0x2000 \<le> c \<and> c \<le> 0x200A) \<or> c = 0x202F \<or> c = 0x205F \<or> c = 0x3000 \<or> c = 0xFEFF)"

definition is_space :: "code_unit \<Rightarrow> bool" where
  "is_space c = (is_white_space c \<or> is_line_terminator c)"

definition trim :: "jsstring \<Rightarrow> jsstring" where
  "trim s = rev (dropWhile is_space (rev (dropWhile is_space s)))"

section \<open>Regular expressions\<close>

text \<open>
  The constructs that occur in the two patterns of the program. \<open>Group n r\<close> is the
  capturing group number \<open>n\<close>; \<open>Plus\<close> is the greedy \<open>+\<close>.
\<close>

datatype regex =
    Char code_unit
  | Class "code_unit \<Rightarrow> bool"
  | Seq regex regex
  | Alt regex regex
  | Plus regex
  | Group nat regex

text \<open>
  The backtracking matcher as a list of successes: \<open>rmatch r (inp, caps)\<close> lists, in the
  order in which a backtracking engine tries them, the states (rest of the input, captures)
  in which a match of \<open>r\<close> at the head of \<open>inp\<close> can end. The left alternative comes before
  the right one, and a further iteration of \<open>+\<close> before stopping (greedy). An iteration
  that consumed nothing is not repeated.
\<close>

function rmatch :: "regex \<Rightarrow> jsstring \<times> js_val list \<Rightarrow> (jsstring \<times> js_val list) list" where
  "rmatch (Char c) (inp, caps) =
     (case inp of [] \<Rightarrow> [] | x # xs \<Rightarrow> if x = c then [(xs, caps)] else [])"
| "rmatch (Class p) (inp, caps) =
     (case inp of [] \<Rightarrow> [] | x # xs \<Rightarrow> if p x then [(xs, caps)] else [])"
| "rmatch (Seq a b) (inp, caps) = concat (map (rmatch b) (rmatch a (inp, caps)))"
| "rmatch (Alt a b) (inp, caps) = rmatch a (inp, caps) @ rmatch b (inp, caps)"
| "rmatch (Plus r) (inp, caps) =
     concat (map (\<lambda>st. (if length (fst st) < length inp then rmatch (Plus r) st else []) @ [st])
                 (rmatch r (inp, caps)))"
| "rmatch (Group n r) (inp, caps) =
     map (\<lambda>st. (fst st, (snd st)[n := Str (take (length inp - length (fst st)) inp)]))
         (rmatch r (inp, caps))"
  by pat_completeness auto
termination
  by (relation "measures [\<lambda>(r, st). size r, \<lambda>(r, st). length (fst st)]") auto

fun ngroups :: "regex \<Rightarrow> nat" where
  "ngroups (Char c) = 0"
| "ngroups (Class p) = 0"
| "ngroups (Seq a b) = ngroups a + ngroups b"
| "ngroups (Alt a b) = ngroups a + ngroups b"
| "ngroups (Plus r) = ngroups r"
| "ngroups (Group n r) = Suc (ngroups r)"

text \<open>
  \<open>RegExp.prototype.exec\<close> for a pattern without flags: the match is sought at index
  0, then 1, and so on; the first position with a match gives the result array, element 0
  the matched text and element \<open>n\<close> the text of group \<open>n\<close>. \<open>None\<close> is \<open>null\<close>.
\<close>

definition match_at :: "regex \<Rightarrow> jsstring \<Rightarrow> js_val list option" where
  "match_at r inp =
     (case rmatch r (inp, replicate (Suc (ngroups r)) Undefined) of
        [] \<Rightarrow> None
      | st # _ \<Rightarrow> Some ((snd st)[0 := Str (take (length inp - length (fst st)) inp)]))"

fun regex_exec :: "regex \<Rightarrow> jsstring \<Rightarrow> js_val list option" where
  "regex_exec r [] = match_at r []"
| "regex_exec r (x # xs) =
     (case match_at r (x # xs) of Some m \<Rightarrow> Some m | None \<Rightarrow> regex_exec r xs)"

definition regex_test :: "regex \<Rightarrow> jsstring \<Rightarrow> bool" where
  "regex_test r s = (regex_exec r s \<noteq> None)"

fun seqs :: "regex \<Rightarrow> regex list \<Rightarrow> regex" where
  "seqs r [] = r"
| "seqs r (r' # rs) = Seq r (seqs r' rs)"

text \<open>\<^verbatim>\<open>/\[(CT|T|ALL)\]\s+([^:]+):\s(.+)/\<close>\<close>

definition chat_regex :: regex where
  "chat_regex =
     seqs (Char (cu CHR ''[''))
       [Group 1 (Alt (Seq (Char (cu CHR ''C'')) (Char (cu CHR ''T'')))
                (Alt (Char (cu CHR ''T''))
                     (Seq (Char (cu CHR ''A'')) (Seq (Char (cu CHR ''L'')) (Char (cu CHR ''L'')))))),
        Char (cu CHR '']''),
        Plus (Class is_space),
        Group 2 (Plus (Class (\<lambda>c. c \<noteq> cu CHR '':''))),
        Char (cu CHR '':''),
        Class is_space,
        Group 3 (Plus (Class (\<lambda>c. \<not> is_line_terminator c)))]"

text \<open>\<^verbatim>\<open>/[\u0400-\u04FF]/\<close>\<close>

definition CYRILLIC_REGEX :: regex where
  "CYRILLIC_REGEX = Class (\<lambda>c. 0x0400 \<le> c \<and> c \<le> 0x04FF)"

subsection \<open>What a pattern denotes\<close>

text \<open>
  The words a pattern matches, independently of any search order: the reference against
  which the backtracking matcher is checked.
\<close>

inductive_set plus_lang :: "jsstring set \<Rightarrow> jsstring set" for A :: "jsstring set" where
  one: "w \<in> A \<Longrightarrow> w \<in> plus_lang A"
| more: "u \<in> A \<Longrightarrow> v \<in> plus_lang A \<Longrightarrow> u @ v \<in> plus_lang A"

fun lang :: "regex \<Rightarrow> jsstring set" where
  "lang (Char c) = {[c]}"
| "lang (Class p) = {[x] |x. p x}"
| "lang (Seq a b) = {u @ v |u v. u \<in> lang a \<and> v \<in> lang b}"
| "lang (Alt a b) = lang a \<union> lang b"
| "lang (Plus r) = plus_lang (lang r)"
| "lang (Group n r) = lang r"

definition occurs_in :: "regex \<Rightarrow> jsstring \<Rightarrow> bool" where
  "occurs_in r line = (\<exists>pre w post. line = pre @ w @ post \<and> w \<in> lang r)"

text \<open>
  The chat pattern spelled out: somewhere in the line an opening bracket, one of the tokens
  \<open>CT\<close>, \<open>T\<close>, \<open>ALL\<close>, a closing bracket, one or more whitespace characters, a sender of
  one or more characters other than the colon, a colon, one whitespace character, and a
  message of one or more characters none of which ends a line.
\<close>

definition chat_pattern_occurs :: "jsstring \<Rightarrow> bool" where
  "chat_pattern_occurs line =
     (\<exists>pre tm ws sender sp msg post.
        line = pre @ ascii ''['' @ tm @ ascii '']'' @ ws @ sender @ ascii '':'' @ [sp] @ msg @ post
        \<and> tm \<in> {ascii ''CT'', ascii ''T'', ascii ''ALL''}
        \<and> ws \<noteq> [] \<and> (\<forall>c \<in> set ws. is_space c)
        \<and> sender \<noteq> [] \<and> (\<forall>c \<in> set sender. c \<noteq> cu CHR '':'')
        \<and> is_space sp
        \<and> msg \<noteq> [] \<and> (\<forall>c \<in> set msg. \<not> is_line_terminator c))"

section \<open>The runtime and the effects of the program\<close>

text \<open>
  The program talks to the outside through \<open>console.log\<close> and through the
  \<open>translate\<close> function of google-translate-api-x. Both are recorded, in the order in
  which they happen, in \<open>effects\<close>. The translate capability is a parameter: it answers
  a request, from a state \<open>'w\<close> of the outside world that it may change, by rejecting with
  an \<open>Error\<close> or by resolving to a result object. Of the result object the program reads
  \<open>text\<close>, \<open>from?.language?.iso\<close> (which may be missing) and the property
  \<open>__forcedFrom\<close> that \<open>smartTranslate\<close> itself adds.

  The case mappings of the JavaScript engine (full Unicode) and the UTF-8 decoder of the
  read stream are parameters as well, and so is \<open>inherited_text\<close>, the text the engine
  gives for \<open>String(Object.prototype[key])\<close> where \<open>key\<close> names a property of
  \<open>Object.prototype\<close>.
\<close>

datatype js_error = Error (err_message: jsstring)

record translate_opts =
  from_lang :: js_val
  to_lang :: jsstring

record translation =
  res_text :: jsstring
  from_language_iso :: js_val
  forcedFrom :: js_val

type_synonym byte = "8 word"

record 'w runtime =
  translate :: "jsstring \<Rightarrow> translate_opts \<Rightarrow> 'w \<Rightarrow> (js_error + translation) \<times> 'w"
  toLowerCase :: "jsstring \<Rightarrow> jsstring"
  toUpperCase :: "jsstring \<Rightarrow> jsstring"
  utf8_decode :: "byte list \<Rightarrow> jsstring"
  inherited_text :: "jsstring \<Rightarrow> jsstring"

text \<open>
  What chalk returns is the text wrapped in the escape codes of a style; it is kept as
  the list of its styled segments, and \<open>+\<close> on such strings is \<open>@\<close>. One
  \<open>console.log\<close> call prints its arguments on one line.
\<close>

datatype style = Yellow | Magenta | BlueBright | MagentaBright | Bold | White | Gray

datatype segment = Styled style jsstring

definition chalk :: "style \<Rightarrow> jsstring \<Rightarrow> segment list" where
  "chalk st s = [Styled st s]"

datatype effect =
    ConsoleLog "segment list list"
  | TranslateCall jsstring translate_opts

record 'w sys =
  effects :: "effect list"
  world :: 'w

definition console_log :: "segment list list \<Rightarrow> 'w sys \<Rightarrow> 'w sys" where
  "console_log args s = s\<lparr>effects := effects s @ [ConsoleLog args]\<rparr>"

definition call_translate ::
  "'w runtime \<Rightarrow> jsstring \<Rightarrow> translate_opts \<Rightarrow> 'w sys \<Rightarrow> (js_error + translation) \<times> 'w sys" where
  "call_translate env txt opts s =
     (case translate env txt opts (world s) of
        (r, w') \<Rightarrow> (r, s\<lparr>effects := effects s @ [TranslateCall txt opts], world := w'\<rparr>))"

section \<open>Console styling, language table, configuration\<close>

text \<open>
  The symbols of \<open>sym\<close> and the arrow of the translation line, as the code units of the
  source file.
\<close>

definition sym_warn :: "segment list" where
  "sym_warn = chalk Yellow [0x201A, 0x00F6, 0x2020, 0x00D4, 0x220F, 0x00E8]"

definition sym_chat :: "segment list" where
  "sym_chat = chalk Magenta [0xF8FF, 0x00FC, 0x00ED, 0x00A8]"

definition sym_trans :: "segment list" where
  "sym_trans = chalk BlueBright [0xF8FF, 0x00FC, 0x00E5, 0x00E7]"

definition arrow :: jsstring where
  "arrow = [0x201A, 0x00DC, 0x00ED]"

definition LANG_MAP :: "(jsstring \<times> jsstring) list" where
  "LANG_MAP = [
    (ascii ''af'', ascii ''Afrikaans''), (ascii ''sq'', ascii ''Albanian''),
    (ascii ''am'', ascii ''Amharic''), (ascii ''ar'', ascii ''Arabic''),
    (ascii ''hy'', ascii ''Armenian''), (ascii ''az'', ascii ''Azerbaijani''),
    (ascii ''eu'', ascii ''Basque''), (ascii ''be'', ascii ''Belarusian''),
    (ascii ''bn'', ascii ''Bengali''), (ascii ''bs'', ascii ''Bosnian''),
    (ascii ''bg'', ascii ''Bulgarian''), (ascii ''ca'', ascii ''Catalan''),
    (ascii ''ceb'', ascii ''Cebuano''), (ascii ''ny'', ascii ''Chichewa''),
    (ascii ''zh'', ascii ''Chinese''), (ascii ''zh_cn'', ascii ''Chinese (Simplified)''),
    (ascii ''zh_tw'', ascii ''Chinese (Traditional)''), (ascii ''co'', ascii ''Corsican''),
    (ascii ''hr'', ascii ''Croatian''), (ascii ''cs'', ascii ''Czech''),
    (ascii ''da'', ascii ''Danish''), (ascii ''nl'', ascii ''Dutch''),
    (ascii ''en'', ascii ''English''), (ascii ''eo'', ascii ''Esperanto''),
    (ascii ''et'', ascii ''Estonian''), (ascii ''tl'', ascii ''Filipino''),
    (ascii ''fi'', ascii ''Finnish''), (ascii ''fr'', ascii ''French''),
    (ascii ''fy'', ascii ''Frisian''), (ascii ''gl'', ascii ''Galician''),
    (ascii ''ka'', ascii ''Georgian''), (ascii ''de'', ascii ''German''),
    (ascii ''el'', ascii ''Greek''), (ascii ''gu'', ascii ''Gujarati''),
    (ascii ''ht'', ascii ''Haitian Creole''), (ascii ''ha'', ascii ''Hausa''),
    (ascii ''haw'', ascii ''Hawaiian''), (ascii ''he'', ascii ''Hebrew''),
    (ascii ''hi'', ascii ''Hindi''), (ascii ''hmn'', ascii ''Hmong''),
    (ascii ''hu'', ascii ''Hungarian''), (ascii ''is'', ascii ''Icelandic''),
    (ascii ''ig'', ascii ''Igbo''), (ascii ''id'', ascii ''Indonesian''),
    (ascii ''ga'', ascii ''Irish''), (ascii ''it'', ascii ''Italian''),
    (ascii ''ja'', ascii ''Japanese''), (ascii ''jw'', ascii ''Javanese''),
    (ascii ''kn'', ascii ''Kannada''), (ascii ''kk'', ascii ''Kazakh''),
    (ascii ''km'', ascii ''Khmer''), (ascii ''rw'', ascii ''Kinyarwanda''),
    (ascii ''ko'', ascii ''Korean''), (ascii ''ku'', ascii ''Kurdish (Kurmanji)''),
    (ascii ''ky'', ascii ''Kyrgyz''), (ascii ''lo'', ascii ''Lao''),
    (ascii ''la'', ascii ''Latin''), (ascii ''lv'', ascii ''Latvian''),
    (ascii ''lt'', ascii ''Lithuanian''), (ascii ''lb'', ascii ''Luxembourgish''),
    (ascii ''mk'', ascii ''Macedonian''), (ascii ''mg'', ascii ''Malagasy''),
    (ascii ''ms'', ascii ''Malay''), (ascii ''ml'', ascii ''Malayalam''),
    (ascii ''mt'', ascii ''Maltese''), (ascii ''mi'', ascii ''Maori''),
    (ascii ''mr'', ascii ''Marathi''), (ascii ''mn'', ascii ''Mongolian''),
    (ascii ''my'', ascii ''Myanmar (Burmese)''), (ascii ''ne'', ascii ''Nepali''),
    (ascii ''no'', ascii ''Norwegian''), (ascii ''or'', ascii ''Odia (Oriya)''),
    (ascii ''ps'', ascii ''Pashto''), (ascii ''fa'', ascii ''Persian''),
    (ascii ''pl'', ascii ''Polish''), (ascii ''pt'', ascii ''Portuguese''),
    (ascii ''pa'', ascii ''Punjabi''), (ascii ''ro'', ascii ''Romanian''),
    (ascii ''ru'', ascii ''Russian''), (ascii ''sm'', ascii ''Samoan''),
    (ascii ''gd'', ascii ''Scots Gaelic''), (ascii ''sr'', ascii ''Serbian''),
    (ascii ''st'', ascii ''Sesotho''), (ascii ''sn'', ascii ''Shona''),
    (ascii ''sd'', ascii ''Sindhi''), (ascii ''si'', ascii ''Sinhala''),
    (ascii ''sk'', ascii ''Slovak''), (ascii ''sl'', ascii ''Slovenian''),
    (ascii ''so'', ascii ''Somali''), (ascii ''es'', ascii ''Spanish''),
    (ascii ''su'', ascii ''Sundanese''), (ascii ''sw'', ascii ''Swahili''),
    (ascii ''sv'', ascii ''Swedish''), (ascii ''tg'', ascii ''Tajik''),
    (ascii ''ta'', ascii ''Tamil''), (ascii ''tt'', ascii ''Tatar''),
    (ascii ''te'', ascii ''Telugu''), (ascii ''th'', ascii ''Thai''),
    (ascii ''tr'', ascii ''Turkish''), (ascii ''tk'', ascii ''Turkmen''),
    (ascii ''uk'', ascii ''Ukrainian''), (ascii ''ur'', ascii ''Urdu''),
    (ascii ''ug'', ascii ''Uyghur''), (ascii ''uz'', ascii ''Uzbek''),
    (ascii ''vi'', ascii ''Vietnamese''), (ascii ''cy'', ascii ''Welsh''),
    (ascii ''xh'', ascii ''Xhosa''), (ascii ''yi'', ascii ''Yiddish''),
    (ascii ''yo'', ascii ''Yoruba''), (ascii ''zu'', ascii ''Zulu'')
  ]"

definition AUTO_TRANSLATE :: bool where
  "AUTO_TRANSLATE = True"

definition AUTO_TRANSLATE_TARGET :: jsstring where
  "AUTO_TRANSLATE_TARGET = ascii ''en''"

definition PREFER_RU_FOR_CYRILLIC :: bool where
  "PREFER_RU_FOR_CYRILLIC = True"

text \<open>
  \<open>LANG_MAP\<close> is an object literal, so \<open>LANG_MAP[key]\<close> finds the names the table holds
  and, for a key that the table does not hold, what the object inherits from
  \<open>Object.prototype\<close>: a function, or for \<open>__proto__\<close> the prototype object itself. An
  inherited value is truthy and is not a string; it is kept as \<open>Inherited key\<close>. For any
  other key the lookup gives \<open>undefined\<close> (\<open>None\<close>).
\<close>

definition Object_prototype_keys :: "jsstring list" where
  "Object_prototype_keys =
     map ascii
       [''constructor'', ''__defineGetter__'', ''__defineSetter__'', ''hasOwnProperty'',
        ''__lookupGetter__'', ''__lookupSetter__'', ''isPrototypeOf'', ''propertyIsEnumerable'',
        ''toString'', ''valueOf'', ''__proto__'', ''toLocaleString'']"

datatype table_val = Name jsstring | Inherited jsstring

definition LANG_MAP_get :: "jsstring \<Rightarrow> table_val option" where
  "LANG_MAP_get key =
     (case map_of LANG_MAP key of
        Some name \<Rightarrow> Some (Name name)
      | None \<Rightarrow> if key \<in> set Object_prototype_keys then Some (Inherited key) else None)"

text \<open>
  \<open>LANG_MAP[key] || key.toUpperCase() || "UNKNOWN"\<close>: an inherited value is returned as
  it is, a name of the table unless it is empty.
\<close>

definition langName :: "'w runtime \<Rightarrow> js_val \<Rightarrow> table_val" where
  "langName env code =
     (let key = toLowerCase env (or_str code []);
          otherwise = Name (or_str (Str (toUpperCase env key)) (ascii ''UNKNOWN''))
      in case LANG_MAP_get key of
           None \<Rightarrow> otherwise
         | Some (Inherited k) \<Rightarrow> Inherited k
         | Some (Name name) \<Rightarrow> if name = [] then otherwise else Name name)"

text \<open>\<open>${readableLang}\<close> inside a template literal.\<close>

definition template_name :: "'w runtime \<Rightarrow> table_val \<Rightarrow> jsstring" where
  "template_name env v = (case v of Name s \<Rightarrow> s | Inherited k \<Rightarrow> inherited_text env k)"

section \<open>Translation logic\<close>

text \<open>
  The body of the \<open>try\<close> block of \<open>smartTranslate\<close>. A rejected promise that is
  awaited throws: the first call's rejection leaves the block (\<open>Inl\<close>), the second call
  has a \<open>try\<close> of its own whose \<open>catch\<close> is empty.
\<close>

definition smartTranslate_try ::
  "'w runtime \<Rightarrow> jsstring \<Rightarrow> jsstring \<Rightarrow> 'w sys \<Rightarrow> (js_error + translation) \<times> 'w sys" where
  "smartTranslate_try env txt toLang s =
     (case call_translate env txt \<lparr>from_lang = Undefined, to_lang = toLang\<rparr> s of
        (Inl err, s1) \<Rightarrow> (Inl err, s1)
      | (Inr res, s1) \<Rightarrow>
          let guess = toLowerCase env (or_str (from_language_iso res) []);
              shouldForceRu =
                (PREFER_RU_FOR_CYRILLIC \<and> regex_test CYRILLIC_REGEX txt \<and> guess \<noteq> ascii ''ru'')
          in if shouldForceRu
             then (case call_translate env txt \<lparr>from_lang = Str (ascii ''ru''), to_lang = toLang\<rparr> s1 of
                     (Inr forced, s2) \<Rightarrow> (Inr (forced\<lparr>forcedFrom := Str (ascii ''ru'')\<rparr>), s2)
                   | (Inl _, s2) \<Rightarrow> (Inr res, s2))
             else (Inr res, s1))"

definition smartTranslate ::
  "'w runtime \<Rightarrow> jsstring \<Rightarrow> jsstring \<Rightarrow> 'w sys \<Rightarrow> (js_error + translation) \<times> 'w sys" where
  "smartTranslate env txt toLang s =
     (case smartTranslate_try env txt toLang s of
        (Inr res, s1) \<Rightarrow> (Inr res, s1)
      | (Inl err, s1) \<Rightarrow>
          (Inr \<lparr>res_text = txt, from_language_iso = Str (ascii ''unknown''), forcedFrom = Undefined\<rparr>,
           console_log
             [sym_warn, chalk Yellow (ascii ''Translation failed: '' @ err_message err)] s1))"

text \<open>\<open>res.__forcedFrom || res.from?.language?.iso || "unknown"\<close>, lowercased.\<close>

definition source_iso :: "'w runtime \<Rightarrow> translation \<Rightarrow> jsstring" where
  "source_iso env res =
     toLowerCase env (or_str (forcedFrom res) (or_str (from_language_iso res) (ascii ''unknown'')))"

definition originalLangReadable :: "'w runtime \<Rightarrow> translation \<Rightarrow> table_val" where
  "originalLangReadable env res = langName env (Str (source_iso env res))"

section \<open>Auto-translate to console\<close>

record chat_event =
  team :: js_val
  sender :: js_val
  message :: js_val

definition translated_line :: "'w runtime \<Rightarrow> chat_event \<Rightarrow> translation \<Rightarrow> segment list list" where
  "translated_line env ev res =
     [sym_trans,
      chalk BlueBright
        (ascii ''['' @ template (team ev) @ ascii ''] '' @ template (sender ev) @ ascii '' (''
         @ template_name env (originalLangReadable env res) @ ascii '' '' @ arrow @ ascii '' ''
         @ toUpperCase env AUTO_TRANSLATE_TARGET @ ascii ''): '')
      @ chalk Gray (res_text res)]"

definition autoTranslateToConsole ::
  "'w runtime \<Rightarrow> chat_event \<Rightarrow> 'w sys \<Rightarrow> (js_error + unit) \<times> 'w sys" where
  "autoTranslateToConsole env ev s =
     (if \<not> AUTO_TRANSLATE then (Inr (), s)
      else case message ev of
        Undefined \<Rightarrow> (Inr (), s)
      | Str m \<Rightarrow>
          if m = [] then (Inr (), s)
          else (case smartTranslate env m AUTO_TRANSLATE_TARGET s of
                  (Inl err, s1) \<Rightarrow> (Inl err, s1)
                | (Inr res, s1) \<Rightarrow>
                    let fromIso = source_iso env res
                    in if fromIso = toLowerCase env AUTO_TRANSLATE_TARGET then (Inr (), s1)
                       else (Inr (), console_log (translated_line env ev res) s1)))"

section \<open>Log line parsing and handler\<close>

definition chat_line :: "js_val \<Rightarrow> jsstring \<Rightarrow> jsstring \<Rightarrow> segment list list" where
  "chat_line tm sndr msg =
     [sym_chat,
      chalk MagentaBright (ascii ''['' @ template tm @ ascii ''] '') @ chalk Bold sndr
      @ chalk White (ascii '': '') @ chalk White msg]"

definition handleLine :: "'w runtime \<Rightarrow> jsstring \<Rightarrow> 'w sys \<Rightarrow> (js_error + unit) \<times> 'w sys" where
  "handleLine env line s =
     (case regex_exec chat_regex line of
        None \<Rightarrow> (Inr (), s)
      | Some match \<Rightarrow>
          let tm = at_index match 1;
              player = at_index match 2;
              messageRaw = at_index match 3;
              msg = trim (or_str messageRaw []);
              sndr = trim (or_str player [])
          in autoTranslateToConsole env \<lparr>team = tm, sender = Str sndr, message = Str msg\<rparr>
               (console_log (chat_line tm sndr msg) s))"

section \<open>Watching the log file\<close>

text \<open>
  Of Node.js the listener passed to \<open>fs.watchFile\<close> uses three things, modelled as
  Node documents them. \<open>fs.createReadStream\<close> with \<open>start\<close> and \<open>end\<close> delivers the
  bytes at the offsets from \<open>start\<close> to \<open>end\<close>, both inclusive, as far as the file
  holds them when it is read, and refuses a \<open>start\<close> beyond \<open>end\<close>. The readline
  interface emits one \<open>line\<close> event for each end of line (\<open>\n\<close>, \<open>\r\<close> or \<open>\r\n\<close>)
  in the decoded text, and one more for text left after the last end of line when the
  stream ends. \<open>fs.watchFile\<close> calls the listener with the current and the previous
  \<open>fs.Stats\<close>, and the current one is the previous one of the next call.
\<close>

record stats =
  st_size :: nat

definition createReadStream :: "byte list \<Rightarrow> nat \<Rightarrow> nat \<Rightarrow> js_error + byte list" where
  "createReadStream content start end_incl =
     (if end_incl < start then Inl (Error (ascii ''ERR_OUT_OF_RANGE''))
      else Inr (take (Suc end_incl - start) (drop start content)))"

fun readline_lines :: "jsstring \<Rightarrow> jsstring \<Rightarrow> jsstring list" where
  "readline_lines cur [] = (if cur = [] then [] else [cur])"
| "readline_lines cur [c] = (if c = 0x000A \<or> c = 0x000D then [cur] else [cur @ [c]])"
| "readline_lines cur (c # d # cs) =
     (if c = 0x000D \<and> d = 0x000A then cur # readline_lines [] cs
      else if c = 0x000A \<or> c = 0x000D then cur # readline_lines [] (d # cs)
      else readline_lines (cur @ [c]) (d # cs))"

text \<open>
  One run of the listener: \<open>content\<close> is what the file holds when the stream reads it.
  The result records the byte ranges asked of \<open>createReadStream\<close> and the lines of the
  \<open>line\<close> events, each of which is handed to \<open>handleLine\<close>.
\<close>

record cycle =
  reads :: "(nat \<times> nat) list"
  lines :: "jsstring list"

definition watch_listener :: "'w runtime \<Rightarrow> byte list \<Rightarrow> stats \<Rightarrow> stats \<Rightarrow> js_error + cycle" where
  "watch_listener env content cur_stat prev_stat =
     (if st_size cur_stat \<le> st_size prev_stat then Inr \<lparr>reads = [], lines = []\<rparr>
      else case createReadStream content (st_size prev_stat) (st_size cur_stat) of
             Inl err \<Rightarrow> Inl err
           | Inr bytes \<Rightarrow>
               Inr \<lparr>reads = [(st_size prev_stat, st_size cur_stat)],
                    lines = readline_lines [] (utf8_decode env bytes)\<rparr>)"

text \<open>
  The stat watcher behind \<open>fs.watchFile\<close>: it remembers the last stat it reported
  (the last known size of the file) and, on a change, runs the listener and remembers
  the new stat.
\<close>

record watcher =
  last_stat :: stats

definition notify ::
  "'w runtime \<Rightarrow> byte list \<Rightarrow> stats \<Rightarrow> watcher \<Rightarrow> (js_error + cycle) \<times> watcher" where
  "notify env content cur_stat w =
     (watch_listener env content cur_stat (last_stat w), w\<lparr>last_stat := cur_stat\<rparr>)"

text \<open>
  The last known size before each of a series of notifications and after the last one;
  a notification is given by what the file holds when it is read and by the stat observed.
\<close>

fun last_known_sizes :: "'w runtime \<Rightarrow> watcher \<Rightarrow> (byte list \<times> stats) list \<Rightarrow> nat list" where
  "last_known_sizes env w [] = [st_size (last_stat w)]"
| "last_known_sizes env w ((content, cur_stat) # obs) =
     st_size (last_stat w) # last_known_sizes env (snd (notify env content cur_stat w)) obs"

text \<open>
  For comparison, the lines of a text that are complete, that is, closed by an end of
  line; text after the last end of line is left out.
\<close>

fun complete_lines :: "jsstring \<Rightarrow> jsstring \<Rightarrow> jsstring list" where
  "complete_lines cur [] = []"
| "complete_lines cur [c] = (if c = 0x000A \<or> c = 0x000D then [cur] else [])"
| "complete_lines cur (c # d # cs) =
     (if c = 0x000D \<and> d = 0x000A then cur # complete_lines [] cs
      else if c = 0x000A \<or> c = 0x000D then cur # complete_lines [] (d # cs)
      else complete_lines (cur @ [c]) (d # cs))"

text \<open>
  Also for comparison, a text laid out as lines, each followed by its end of line, and
  after them text without an end of line. \<open>split_at_eols\<close> says that the layout cuts
  the text at its ends of line: no line and no rest holds \<open>\n\<close> or \<open>\r\<close>, each end of
  line is \<open>\n\<close>, \<open>\r\n\<close> or \<open>\r\<close>, and a \<open>\r\<close> counts as an end of line of its own
  only when no \<open>\n\<close> follows it.
\<close>

fun join_lines :: "(jsstring \<times> jsstring) list \<Rightarrow> jsstring \<Rightarrow> jsstring" where
  "join_lines [] p = p"
| "join_lines ((l, e) # rest) p = l @ e @ join_lines rest p"

definition no_eol :: "jsstring \<Rightarrow> bool" where
  "no_eol l = (\<forall>c \<in> set l. c \<noteq> 0x000A \<and> c \<noteq> 0x000D)"

fun split_at_eols :: "(jsstring \<times> jsstring) list \<Rightarrow> jsstring \<Rightarrow> bool" where
  "split_at_eols [] p = no_eol p"
| "split_at_eols ((l, e) # rest) p =
     (no_eol l
      \<and> (e = [0x000A] \<or> e = [0x000D, 0x000A]
           \<or> (e = [0x000D] \<and> take 1 (join_lines rest p) \<noteq> [0x000A]))
      \<and> split_at_eols rest p)"

section \<open>A runtime to run the program on\<close>

text \<open>
  A runtime whose translate capability answers from a script, one prepared answer for
  each call, and rejects once the script is used up; its case mappings and its decoder
  are those of JavaScript and UTF-8 on ASCII text, and its texts for inherited values are
  those of V8.
\<close>

definition ascii_lower :: "code_unit \<Rightarrow> code_unit" where
  "ascii_lower c = (if 0x41 \<le> c \<and> c \<le> 0x5A then c + 0x20 else c)"

definition ascii_upper :: "code_unit \<Rightarrow> code_unit" where
  "ascii_upper c = (if 0x61 \<le> c \<and> c \<le> 0x7A then c - 0x20 else c)"

definition scripted :: "(js_error + translation) list runtime" where
  "scripted =
     \<lparr>translate = (\<lambda>txt opts w. case w of [] \<Rightarrow> (Inl (Error (ascii ''offline'')), [])
                                         | r # rs \<Rightarrow> (r, rs)),
      toLowerCase = map ascii_lower,
      toUpperCase = map ascii_upper,
      utf8_decode = map ucast,
      inherited_text =
        (\<lambda>key. if key = ascii ''__proto__'' then ascii ''[object Object]''
               else if key = ascii ''constructor'' then ascii ''function Object() { [native code] }''
               else ascii ''function '' @ key @ ascii ''() { [native code] }'')\<rparr>"

definition start_with :: "'w \<Rightarrow> 'w sys" where
  "start_with w = \<lparr>effects = [], world = w\<rparr>"

section \<open>The backtracking matcher finds exactly the words of the pattern\<close>

text \<open>
  The equation for \<open>+\<close> mentions \<open>rmatch (Plus r)\<close> on both sides; it is unfolded by
  hand, one step at a time.
\<close>

declare rmatch.simps(5) [simp del]

lemma rmatch_Plus_unfold:
  "rmatch (Plus r) st =
     concat (map (\<lambda>st'. (if length (fst st') < length (fst st) then rmatch (Plus r) st' else []) @ [st'])
                 (rmatch r st))"
  by (cases st) (simp add: rmatch.simps(5))

lemma rmatch_Plus_stop:
  "mid \<in> set (rmatch r st) \<Longrightarrow> mid \<in> set (rmatch (Plus r) st)"
  by (subst rmatch_Plus_unfold) auto

lemma rmatch_Plus_again:
  "mid \<in> set (rmatch r st) \<Longrightarrow> length (fst mid) < length (fst st) \<Longrightarrow>
   fin \<in> set (rmatch (Plus r) mid) \<Longrightarrow> fin \<in> set (rmatch (Plus r) st)"
  by (subst rmatch_Plus_unfold) auto

lemma rmatch_sound:
  "st' \<in> set (rmatch r st) \<Longrightarrow> \<exists>w \<in> lang r. fst st = w @ fst st'"
proof (induction r st arbitrary: st' rule: rmatch.induct)
  case (1 c inp caps)
  then show ?case by (auto split: list.splits if_splits)
next
  case (2 p inp caps)
  then show ?case by (auto split: list.splits if_splits)
next
  case (3 a b inp caps)
  from "3.prems" obtain mid where mid: "mid \<in> set (rmatch a (inp, caps))" and fin: "st' \<in> set (rmatch b mid)"
    by auto
  from "3.IH"(1) [OF mid] obtain u where u: "u \<in> lang a" "inp = u @ fst mid" by auto
  from "3.IH"(2) [OF mid fin] obtain v where v: "v \<in> lang b" "fst mid = v @ fst st'" by auto
  from u v show ?case by auto
next
  case (4 a b inp caps)
  from "4.prems" have "st' \<in> set (rmatch a (inp, caps)) \<or> st' \<in> set (rmatch b (inp, caps))"
    by simp
  with "4.IH" show ?case by fastforce
next
  case (5 r inp caps)
  from "5.prems" obtain mid where mid: "mid \<in> set (rmatch r (inp, caps))"
    and fin: "(length (fst mid) < length inp \<and> st' \<in> set (rmatch (Plus r) mid)) \<or> st' = mid"
    by (subst (asm) rmatch_Plus_unfold) (auto split: if_splits)
  from "5.IH"(1) [OF mid] obtain u where u: "u \<in> lang r" "inp = u @ fst mid" by auto
  from fin show ?case
  proof
    assume "st' = mid"
    with u show ?thesis by (auto intro: plus_lang.one)
  next
    assume a: "length (fst mid) < length inp \<and> st' \<in> set (rmatch (Plus r) mid)"
    from a "5.IH"(2) [OF mid] have "\<exists>v \<in> plus_lang (lang r). fst mid = v @ fst st'"
      by simp
    then obtain v where v: "v \<in> plus_lang (lang r)" "fst mid = v @ fst st'" by blast
    with u have "u @ v \<in> plus_lang (lang r)" by (auto intro: plus_lang.more)
    with u v show ?thesis by auto
  qed
next
  case (6 n r inp caps)
  then show ?case by auto
qed

lemma rmatch_complete:
  "w \<in> lang r \<Longrightarrow> \<exists>caps'. (rest, caps') \<in> set (rmatch r (w @ rest, caps))"
proof (induction r arbitrary: w rest caps)
  case (Char c)
  then show ?case by simp
next
  case (Class p)
  then show ?case by auto
next
  case (Seq a b)
  from Seq.prems obtain u v where uv: "w = u @ v" "u \<in> lang a" "v \<in> lang b" by auto
  from Seq.IH(1) [OF uv(2), of "v @ rest" caps] obtain c1
    where c1: "(v @ rest, c1) \<in> set (rmatch a (u @ v @ rest, caps))" by auto
  from Seq.IH(2) [OF uv(3), of rest c1] obtain c2
    where c2: "(rest, c2) \<in> set (rmatch b (v @ rest, c1))" by auto
  from c1 c2 uv(1) show ?case by auto
next
  case (Alt a b)
  then show ?case by fastforce
next
  case (Plus r)
  from Plus.prems have "w \<in> plus_lang (lang r)" by simp
  then show ?case
  proof (induction arbitrary: rest caps rule: plus_lang.induct)
    case (one w)
    from Plus.IH [OF one, of rest caps] obtain c1
      where "(rest, c1) \<in> set (rmatch r (w @ rest, caps))" by auto
    then show ?case by (blast intro: rmatch_Plus_stop)
  next
    case (more u v)
    show ?case
    proof (cases "u = []")
      case True
      with more.IH [of rest caps] show ?thesis by simp
    next
      case False
      from Plus.IH [OF more.hyps(1), of "v @ rest" caps] obtain c1
        where c1: "(v @ rest, c1) \<in> set (rmatch r (u @ v @ rest, caps))" by auto
      from more.IH [of rest c1] obtain c2
        where c2: "(rest, c2) \<in> set (rmatch (Plus r) (v @ rest, c1))" by auto
      from False have "length (fst (v @ rest, c1)) < length (fst (u @ v @ rest, caps))" by simp
      from rmatch_Plus_again [OF c1 this c2] show ?thesis by auto
    qed
  qed
next
  case (Group n r)
  from Group.IH [OF Group.prems [simplified], of rest caps] obtain c1
    where "(rest, c1) \<in> set (rmatch r (w @ rest, caps))" by auto
  then show ?case by force
qed

lemma rmatch_empty_iff:
  "rmatch r (inp, caps) = [] \<longleftrightarrow> \<not> (\<exists>w rest. inp = w @ rest \<and> w \<in> lang r)"
proof
  assume e: "rmatch r (inp, caps) = []"
  show "\<not> (\<exists>w rest. inp = w @ rest \<and> w \<in> lang r)"
  proof
    assume "\<exists>w rest. inp = w @ rest \<and> w \<in> lang r"
    then obtain w rest where "inp = w @ rest" "w \<in> lang r" by auto
    with rmatch_complete [of w r rest caps] e show False by auto
  qed
next
  assume n: "\<not> (\<exists>w rest. inp = w @ rest \<and> w \<in> lang r)"
  show "rmatch r (inp, caps) = []"
  proof (rule ccontr)
    assume "rmatch r (inp, caps) \<noteq> []"
    then obtain st' where "st' \<in> set (rmatch r (inp, caps))" by (cases "rmatch r (inp, caps)") auto
    from rmatch_sound [OF this] n show False by auto
  qed
qed

lemma match_at_None_iff:
  "match_at r inp = None \<longleftrightarrow> \<not> (\<exists>w rest. inp = w @ rest \<and> w \<in> lang r)"
proof -
  have "match_at r inp = None \<longleftrightarrow> rmatch r (inp, replicate (Suc (ngroups r)) Undefined) = []"
    by (cases "rmatch r (inp, replicate (Suc (ngroups r)) Undefined)") (simp_all add: match_at_def)
  then show ?thesis by (simp only: rmatch_empty_iff)
qed

lemma regex_exec_None_iff: "regex_exec r line = None \<longleftrightarrow> \<not> occurs_in r line"
proof (induction line)
  case Nil
  have "occurs_in r [] \<longleftrightarrow> (\<exists>w rest. [] = w @ rest \<and> w \<in> lang r)"
    by (simp add: occurs_in_def)
  then show ?case
    by (simp add: match_at_None_iff)
next
  case (Cons x xs)
  have "occurs_in r (x # xs) \<longleftrightarrow> (\<exists>w rest. x # xs = w @ rest \<and> w \<in> lang r) \<or> occurs_in r xs"
  proof
    assume "occurs_in r (x # xs)"
    then obtain pre w post where d: "x # xs = pre @ w @ post" "w \<in> lang r"
      by (auto simp: occurs_in_def)
    show "(\<exists>w rest. x # xs = w @ rest \<and> w \<in> lang r) \<or> occurs_in r xs"
    proof (cases pre)
      case Nil
      with d show ?thesis by auto
    next
      case (Cons p ps)
      with d have "xs = ps @ w @ post" by simp
      with d(2) show ?thesis by (auto simp: occurs_in_def)
    qed
  next
    assume "(\<exists>w rest. x # xs = w @ rest \<and> w \<in> lang r) \<or> occurs_in r xs"
    then show "occurs_in r (x # xs)"
    proof
      assume "\<exists>w rest. x # xs = w @ rest \<and> w \<in> lang r"
      then obtain w rest where "x # xs = [] @ w @ rest" "w \<in> lang r" by auto
      then show ?thesis unfolding occurs_in_def by blast
    next
      assume "occurs_in r xs"
      then obtain pre w post where "xs = pre @ w @ post" "w \<in> lang r" by (auto simp: occurs_in_def)
      then have "x # xs = (x # pre) @ w @ post" "w \<in> lang r" by auto
      then show ?thesis unfolding occurs_in_def by blast
    qed
  qed
  with Cons.IH match_at_None_iff [of r "x # xs"] show ?case
    by (cases "match_at r (x # xs)") auto
qed

subsection \<open>The two patterns of the program\<close>

lemma plus_lang_class:
  "plus_lang {[x] |x. p x} = {w. w \<noteq> [] \<and> (\<forall>x \<in> set w. p x)}"
proof (intro set_eqI iffI)
  fix w assume "w \<in> plus_lang {[x] |x. p x}"
  then show "w \<in> {w. w \<noteq> [] \<and> (\<forall>x \<in> set w. p x)}"
    by (induction rule: plus_lang.induct) auto
next
  fix w assume "w \<in> {w. w \<noteq> [] \<and> (\<forall>x \<in> set w. p x)}"
  then have "w \<noteq> []" and "\<forall>x \<in> set w. p x" by auto
  then show "w \<in> plus_lang {[x] |x. p x}"
  proof (induction w rule: list_nonempty_induct)
    case (single x)
    then show ?case by (auto intro: plus_lang.one)
  next
    case (cons x xs)
    then have "[x] \<in> {[x] |x. p x}" and "xs \<in> plus_lang {[x] |x. p x}" by auto
    then have "[x] @ xs \<in> plus_lang {[x] |x. p x}" by (rule plus_lang.more)
    then show ?case by simp
  qed
qed

lemma lang_Seq_Char:
  "v \<in> lang (Seq (Char c) r) \<longleftrightarrow> (\<exists>v'. v = [c] @ v' \<and> v' \<in> lang r)"
  by auto

lemma lang_chat_regex:
  "w \<in> lang chat_regex \<longleftrightarrow>
     (\<exists>tm ws sender sp msg.
        w = ascii ''['' @ tm @ ascii '']'' @ ws @ sender @ ascii '':'' @ [sp] @ msg
        \<and> tm \<in> {ascii ''CT'', ascii ''T'', ascii ''ALL''}
        \<and> ws \<noteq> [] \<and> (\<forall>c \<in> set ws. is_space c)
        \<and> sender \<noteq> [] \<and> (\<forall>c \<in> set sender. c \<noteq> cu CHR '':'')
        \<and> is_space sp
        \<and> msg \<noteq> [] \<and> (\<forall>c \<in> set msg. \<not> is_line_terminator c))"
proof -
  define P8 where "P8 = (\<lambda>msg. msg \<noteq> [] \<and> (\<forall>c \<in> set msg. \<not> is_line_terminator c))"
  define P5 where "P5 = (\<lambda>sender. sender \<noteq> [] \<and> (\<forall>c \<in> set sender. c \<noteq> cu CHR '':''))"
  define P4 where "P4 = (\<lambda>ws. ws \<noteq> [] \<and> (\<forall>c \<in> set ws. is_space c))"
  define P2 where "P2 = (\<lambda>tm. tm \<in> {ascii ''CT'', ascii ''T'', ascii ''ALL''})"
  define r8 where "r8 = Group 3 (Plus (Class (\<lambda>c. \<not> is_line_terminator c)))"
  define r7 where "r7 = Seq (Class is_space) r8"
  define r6 where "r6 = Seq (Char (cu CHR '':'')) r7"
  define r5 where "r5 = Seq (Group 2 (Plus (Class (\<lambda>c. c \<noteq> cu CHR '':'')))) r6"
  define r4 where "r4 = Seq (Plus (Class is_space)) r5"
  define r3 where "r3 = Seq (Char (cu CHR '']'')) r4"
  define tms where "tms = Alt (Seq (Char (cu CHR ''C'')) (Char (cu CHR ''T'')))
                (Alt (Char (cu CHR ''T''))
                     (Seq (Char (cu CHR ''A'')) (Seq (Char (cu CHR ''L'')) (Char (cu CHR ''L'')))))"
  define r2 where "r2 = Seq (Group 1 tms) r3"
  have top: "chat_regex = Seq (Char (cu CHR ''['')) r2"
    by (simp add: chat_regex_def r2_def r3_def r4_def r5_def r6_def r7_def r8_def tms_def)
  have l8: "v \<in> lang r8 \<longleftrightarrow> P8 v" for v
    by (simp add: r8_def plus_lang_class P8_def)
  have l7: "v \<in> lang r7 \<longleftrightarrow> (\<exists>sp msg. v = [sp] @ msg \<and> is_space sp \<and> P8 msg)" for v
  proof
    assume "v \<in> lang r7"
    then show "\<exists>sp msg. v = [sp] @ msg \<and> is_space sp \<and> P8 msg"
      unfolding r7_def by (auto simp: l8)
  next
    assume "\<exists>sp msg. v = [sp] @ msg \<and> is_space sp \<and> P8 msg"
    then obtain sp msg where v: "v = [sp] @ msg" and p: "is_space sp" "P8 msg" by blast
    from p have "[sp] \<in> lang (Class is_space)" "msg \<in> lang r8" by (simp_all add: l8)
    then show "v \<in> lang r7" unfolding r7_def v lang.simps(3) by blast
  qed
  have l6: "v \<in> lang r6 \<longleftrightarrow> (\<exists>sp msg. v = ascii '':'' @ [sp] @ msg \<and> is_space sp \<and> P8 msg)" for v
  proof -
    have a: "ascii '':'' = [cu CHR '':'']" by (simp add: ascii_def)
    show ?thesis unfolding r6_def lang_Seq_Char l7 a by blast
  qed
  have l5: "v \<in> lang r5 \<longleftrightarrow>
      (\<exists>sender sp msg. v = sender @ ascii '':'' @ [sp] @ msg \<and> P5 sender \<and> is_space sp \<and> P8 msg)" for v
  proof
    assume "v \<in> lang r5"
    then obtain sender v' where "v = sender @ v'" "P5 sender" "v' \<in> lang r6"
      unfolding r5_def by (auto simp: plus_lang_class P5_def)
    then show "\<exists>sender sp msg. v = sender @ ascii '':'' @ [sp] @ msg \<and> P5 sender \<and> is_space sp \<and> P8 msg"
      unfolding l6 by blast
  next
    assume "\<exists>sender sp msg. v = sender @ ascii '':'' @ [sp] @ msg \<and> P5 sender \<and> is_space sp \<and> P8 msg"
    then obtain sender sp msg where v: "v = sender @ ascii '':'' @ [sp] @ msg"
      and p: "P5 sender" "is_space sp" "P8 msg" by blast
    from p have "ascii '':'' @ [sp] @ msg \<in> lang r6" unfolding l6 by blast
    moreover from p have "sender \<in> lang (Group 2 (Plus (Class (\<lambda>c. c \<noteq> cu CHR '':''))))"
      by (simp add: plus_lang_class P5_def)
    ultimately show "v \<in> lang r5" unfolding r5_def v lang.simps by blast
  qed
  have l4: "v \<in> lang r4 \<longleftrightarrow>
      (\<exists>ws sender sp msg. v = ws @ sender @ ascii '':'' @ [sp] @ msg
          \<and> P4 ws \<and> P5 sender \<and> is_space sp \<and> P8 msg)" for v
  proof
    assume "v \<in> lang r4"
    then obtain ws v' where "v = ws @ v'" "P4 ws" "v' \<in> lang r5"
      unfolding r4_def by (auto simp: plus_lang_class P4_def)
    then show "\<exists>ws sender sp msg. v = ws @ sender @ ascii '':'' @ [sp] @ msg
          \<and> P4 ws \<and> P5 sender \<and> is_space sp \<and> P8 msg"
      unfolding l5 by blast
  next
    assume "\<exists>ws sender sp msg. v = ws @ sender @ ascii '':'' @ [sp] @ msg
          \<and> P4 ws \<and> P5 sender \<and> is_space sp \<and> P8 msg"
    then obtain ws sender sp msg where v: "v = ws @ sender @ ascii '':'' @ [sp] @ msg"
      and p: "P4 ws" "P5 sender" "is_space sp" "P8 msg" by blast
    from p have "sender @ ascii '':'' @ [sp] @ msg \<in> lang r5" unfolding l5 by blast
    moreover from p have "ws \<in> lang (Plus (Class is_space))"
      by (simp add: plus_lang_class P4_def)
    ultimately show "v \<in> lang r4" unfolding r4_def v lang.simps by blast
  qed
  have l3: "v \<in> lang r3 \<longleftrightarrow>
      (\<exists>ws sender sp msg. v = ascii '']'' @ ws @ sender @ ascii '':'' @ [sp] @ msg
          \<and> P4 ws \<and> P5 sender \<and> is_space sp \<and> P8 msg)" for v
  proof -
    have a: "ascii '']'' = [cu CHR '']'']" by (simp add: ascii_def)
    show ?thesis unfolding r3_def lang_Seq_Char l4 a by blast
  qed
  have ltm: "tm \<in> lang (Group 1 tms) \<longleftrightarrow> P2 tm" for tm
    by (auto simp: tms_def P2_def ascii_def)
  have l2: "v \<in> lang r2 \<longleftrightarrow>
      (\<exists>tm ws sender sp msg. v = tm @ ascii '']'' @ ws @ sender @ ascii '':'' @ [sp] @ msg
          \<and> P2 tm \<and> P4 ws \<and> P5 sender \<and> is_space sp \<and> P8 msg)" for v
  proof
    assume "v \<in> lang r2"
    then obtain tm v' where "v = tm @ v'" "P2 tm" "v' \<in> lang r3"
      unfolding r2_def lang.simps(3) ltm by blast
    then show "\<exists>tm ws sender sp msg. v = tm @ ascii '']'' @ ws @ sender @ ascii '':'' @ [sp] @ msg
          \<and> P2 tm \<and> P4 ws \<and> P5 sender \<and> is_space sp \<and> P8 msg"
      unfolding l3 by blast
  next
    assume "\<exists>tm ws sender sp msg. v = tm @ ascii '']'' @ ws @ sender @ ascii '':'' @ [sp] @ msg
          \<and> P2 tm \<and> P4 ws \<and> P5 sender \<and> is_space sp \<and> P8 msg"
    then obtain tm ws sender sp msg where v: "v = tm @ ascii '']'' @ ws @ sender @ ascii '':'' @ [sp] @ msg"
      and p: "P2 tm" "P4 ws" "P5 sender" "is_space sp" "P8 msg" by blast
    from p have "ascii '']'' @ ws @ sender @ ascii '':'' @ [sp] @ msg \<in> lang r3" unfolding l3 by blast
    moreover from p have "tm \<in> lang (Group 1 tms)" unfolding ltm by blast
    ultimately show "v \<in> lang r2" unfolding r2_def v lang.simps(3) by blast
  qed
  have "w \<in> lang chat_regex \<longleftrightarrow>
      (\<exists>tm ws sender sp msg. w = ascii ''['' @ tm @ ascii '']'' @ ws @ sender @ ascii '':'' @ [sp] @ msg
          \<and> P2 tm \<and> P4 ws \<and> P5 sender \<and> is_space sp \<and> P8 msg)"
  proof -
    have a: "ascii ''['' = [cu CHR ''['']" by (simp add: ascii_def)
    show ?thesis unfolding top lang_Seq_Char l2 a by blast
  qed
  then show ?thesis
    unfolding P2_def P4_def P5_def P8_def by (simp only: conj_assoc)
qed

lemma occurs_in_chat_regex: "occurs_in chat_regex line \<longleftrightarrow> chat_pattern_occurs line"
proof
  assume "occurs_in chat_regex line"
  then obtain pre w post where line: "line = pre @ w @ post" and w: "w \<in> lang chat_regex"
    unfolding occurs_in_def by blast
  from w obtain tm ws sender sp msg where
      eq: "w = ascii ''['' @ tm @ ascii '']'' @ ws @ sender @ ascii '':'' @ [sp] @ msg"
    and f: "tm \<in> {ascii ''CT'', ascii ''T'', ascii ''ALL''}" "ws \<noteq> []" "\<forall>c \<in> set ws. is_space c"
      "sender \<noteq> []" "\<forall>c \<in> set sender. c \<noteq> cu CHR '':''" "is_space sp"
      "msg \<noteq> []" "\<forall>c \<in> set msg. \<not> is_line_terminator c"
    unfolding lang_chat_regex by blast
  from line eq
  have "line = pre @ ascii ''['' @ tm @ ascii '']'' @ ws @ sender @ ascii '':'' @ [sp] @ msg @ post"
    by simp
  then show "chat_pattern_occurs line"
    unfolding chat_pattern_occurs_def using f by (intro exI conjI) assumption+
next
  assume "chat_pattern_occurs line"
  then obtain pre tm ws sender sp msg post where
      eq: "line = pre @ ascii ''['' @ tm @ ascii '']'' @ ws @ sender @ ascii '':'' @ [sp] @ msg @ post"
    and f: "tm \<in> {ascii ''CT'', ascii ''T'', ascii ''ALL''}" "ws \<noteq> []" "\<forall>c \<in> set ws. is_space c"
      "sender \<noteq> []" "\<forall>c \<in> set sender. c \<noteq> cu CHR '':''" "is_space sp"
      "msg \<noteq> []" "\<forall>c \<in> set msg. \<not> is_line_terminator c"
    unfolding chat_pattern_occurs_def by (elim exE conjE) (rule that)
  define w where "w = ascii ''['' @ tm @ ascii '']'' @ ws @ sender @ ascii '':'' @ [sp] @ msg"
  have "w \<in> lang chat_regex"
    unfolding lang_chat_regex using f w_def by (intro exI conjI) assumption+
  moreover from eq have "line = pre @ w @ post" by (simp add: w_def)
  ultimately show "occurs_in chat_regex line"
    unfolding occurs_in_def by blast
qed

lemma regex_test_iff: "regex_test r s \<longleftrightarrow> occurs_in r s"
  by (simp add: regex_test_def regex_exec_None_iff)

lemma occurs_in_Class: "occurs_in (Class p) txt \<longleftrightarrow> (\<exists>c \<in> set txt. p c)"
proof
  assume "occurs_in (Class p) txt"
  then obtain pre w post where "txt = pre @ w @ post" "w \<in> lang (Class p)"
    unfolding occurs_in_def by blast
  then obtain c where "txt = pre @ [c] @ post" "p c" by auto
  then show "\<exists>c \<in> set txt. p c" by auto
next
  assume "\<exists>c \<in> set txt. p c"
  then obtain c where c: "c \<in> set txt" "p c" by blast
  from split_list [OF c(1)] obtain ys zs where "txt = ys @ c # zs" by blast
  then have "txt = ys @ [c] @ zs" by simp
  moreover from c(2) have "[c] \<in> lang (Class p)" by simp
  ultimately show "occurs_in (Class p) txt"
    unfolding occurs_in_def by blast
qed

lemma regex_test_CYRILLIC:
  "regex_test CYRILLIC_REGEX txt \<longleftrightarrow> (\<exists>c \<in> set txt. 0x0400 \<le> c \<and> c \<le> 0x04FF)"
  by (simp add: regex_test_iff CYRILLIC_REGEX_def occurs_in_Class)

section \<open>Properties of the translation gateway\<close>

lemma call_translate_eq:
  "translate env txt opts (world s) = (r, w') \<Longrightarrow>
   call_translate env txt opts s =
     (r, s\<lparr>effects := effects s @ [TranslateCall txt opts], world := w'\<rparr>)"
  by (simp add: call_translate_def)

lemma smartTranslate_returns: "\<exists>res. fst (smartTranslate env txt toLang s) = Inr res"
  by (auto simp: smartTranslate_def split: prod.splits sum.splits)

text \<open>
  Claim C1. \<open>smartTranslate\<close> never throws to its caller: whatever the text, the target
  language and the behaviour of the translate capability, it returns a result. If the
  translate call fails, the result carries the input text unchanged and the detected
  language \<open>unknown\<close>, and the only effects are the call itself and one logged warning
  with the message of the error; the caller goes on from there.
\<close>

theorem smartTranslate_never_throws:
  "(\<exists>res. fst (smartTranslate env txt toLang s) = Inr res) \<and>
   (\<forall>err w'. translate env txt \<lparr>from_lang = Undefined, to_lang = toLang\<rparr> (world s) = (Inl err, w') \<longrightarrow>
      smartTranslate env txt toLang s =
        (Inr \<lparr>res_text = txt, from_language_iso = Str (ascii ''unknown''), forcedFrom = Undefined\<rparr>,
         s\<lparr>effects := effects s @
               [TranslateCall txt \<lparr>from_lang = Undefined, to_lang = toLang\<rparr>,
                ConsoleLog [sym_warn, chalk Yellow (ascii ''Translation failed: '' @ err_message err)]],
           world := w'\<rparr>))"
proof (intro conjI allI impI)
  show "\<exists>res. fst (smartTranslate env txt toLang s) = Inr res"
    by (rule smartTranslate_returns)
next
  fix err w'
  assume rej: "translate env txt \<lparr>from_lang = Undefined, to_lang = toLang\<rparr> (world s) = (Inl err, w')"
  have "smartTranslate_try env txt toLang s =
          (Inl err, s\<lparr>effects := effects s @ [TranslateCall txt \<lparr>from_lang = Undefined, to_lang = toLang\<rparr>],
                      world := w'\<rparr>)"
    by (simp add: smartTranslate_try_def call_translate_eq [OF rej])
  then show "smartTranslate env txt toLang s =
        (Inr \<lparr>res_text = txt, from_language_iso = Str (ascii ''unknown''), forcedFrom = Undefined\<rparr>,
         s\<lparr>effects := effects s @
               [TranslateCall txt \<lparr>from_lang = Undefined, to_lang = toLang\<rparr>,
                ConsoleLog [sym_warn, chalk Yellow (ascii ''Translation failed: '' @ err_message err)]],
           world := w'\<rparr>)"
    by (simp add: smartTranslate_def console_log_def)
qed

theorem smartTranslate_never_throws_witness:
  "translate scripted (ascii ''privet'') \<lparr>from_lang = Undefined, to_lang = ascii ''en''\<rparr>
       (world (start_with [])) = (Inl (Error (ascii ''offline'')), [])
   \<and> smartTranslate scripted (ascii ''privet'') (ascii ''en'') (start_with []) =
     (Inr \<lparr>res_text = ascii ''privet'', from_language_iso = Str (ascii ''unknown''), forcedFrom = Undefined\<rparr>,
      \<lparr>effects = [TranslateCall (ascii ''privet'') \<lparr>from_lang = Undefined, to_lang = ascii ''en''\<rparr>,
                  ConsoleLog [sym_warn, chalk Yellow (ascii ''Translation failed: offline'')]],
       world = []\<rparr>)"
proof -
  have rej: "translate scripted (ascii ''privet'') \<lparr>from_lang = Undefined, to_lang = ascii ''en''\<rparr>
               (world (start_with [])) = (Inl (Error (ascii ''offline'')), [])"
    by (simp add: scripted_def start_with_def)
  from smartTranslate_never_throws [of scripted "ascii ''privet''" "ascii ''en''" "start_with []"] rej
  show ?thesis by (simp add: start_with_def ascii_def)
qed

text \<open>
  Claim C2. When the text holds a character of the Cyrillic block (U+0400 to U+04FF) and
  the language detected by the first call, lowercased, is not \<open>ru\<close>, \<open>smartTranslate\<close>
  makes a second call with the source language forced to \<open>ru\<close>. If the second call
  succeeds, its result is returned with \<open>__forcedFrom\<close> set to \<open>ru\<close>; if it fails, the
  result of the first call is returned as it is, and nothing is logged.
\<close>

theorem cyrillic_forces_second_call:
  assumes cyr: "\<exists>c \<in> set txt. 0x0400 \<le> c \<and> c \<le> 0x04FF"
    and first: "translate env txt \<lparr>from_lang = Undefined, to_lang = toLang\<rparr> (world s) = (Inr res, w1)"
    and guess: "toLowerCase env (or_str (from_language_iso res) []) \<noteq> ascii ''ru''"
    and second: "translate env txt \<lparr>from_lang = Str (ascii ''ru''), to_lang = toLang\<rparr> w1 = (r2, w2)"
  shows "smartTranslate env txt toLang s =
     ((case r2 of Inr forced \<Rightarrow> Inr (forced\<lparr>forcedFrom := Str (ascii ''ru'')\<rparr>) | Inl err \<Rightarrow> Inr res),
      s\<lparr>effects := effects s @
            [TranslateCall txt \<lparr>from_lang = Undefined, to_lang = toLang\<rparr>,
             TranslateCall txt \<lparr>from_lang = Str (ascii ''ru''), to_lang = toLang\<rparr>],
        world := w2\<rparr>)"
proof -
  let ?s1 = "s\<lparr>effects := effects s @ [TranslateCall txt \<lparr>from_lang = Undefined, to_lang = toLang\<rparr>],
               world := w1\<rparr>"
  have c1: "call_translate env txt \<lparr>from_lang = Undefined, to_lang = toLang\<rparr> s = (Inr res, ?s1)"
    by (rule call_translate_eq [OF first])
  have "translate env txt \<lparr>from_lang = Str (ascii ''ru''), to_lang = toLang\<rparr> (world ?s1) = (r2, w2)"
    using second by simp
  from call_translate_eq [OF this]
  have c2: "call_translate env txt \<lparr>from_lang = Str (ascii ''ru''), to_lang = toLang\<rparr> ?s1 =
      (r2, s\<lparr>effects := effects s @
            [TranslateCall txt \<lparr>from_lang = Undefined, to_lang = toLang\<rparr>,
             TranslateCall txt \<lparr>from_lang = Str (ascii ''ru''), to_lang = toLang\<rparr>],
        world := w2\<rparr>)"
    by simp
  from cyr have test: "regex_test CYRILLIC_REGEX txt" by (simp add: regex_test_CYRILLIC)
  have "smartTranslate_try env txt toLang s =
     ((case r2 of Inr forced \<Rightarrow> Inr (forced\<lparr>forcedFrom := Str (ascii ''ru'')\<rparr>) | Inl err \<Rightarrow> Inr res),
      s\<lparr>effects := effects s @
            [TranslateCall txt \<lparr>from_lang = Undefined, to_lang = toLang\<rparr>,
             TranslateCall txt \<lparr>from_lang = Str (ascii ''ru''), to_lang = toLang\<rparr>],
        world := w2\<rparr>)"
    unfolding smartTranslate_try_def c1 using test guess c2
    by (simp add: PREFER_RU_FOR_CYRILLIC_def split: sum.splits)
  then show ?thesis
    by (simp add: smartTranslate_def split: sum.splits)
qed



theorem cyrillic_forces_second_call_witness:
  "(\<exists>c \<in> set [0x043F, 0x0440 :: code_unit]. 0x0400 \<le> c \<and> c \<le> 0x04FF)
   \<and> toLowerCase scripted (or_str (Str (ascii ''uk'')) []) \<noteq> ascii ''ru''
   \<and> smartTranslate scripted [0x043F, 0x0440] (ascii ''en'')
        (start_with
           [Inr \<lparr>res_text = ascii ''hi'', from_language_iso = Str (ascii ''uk''), forcedFrom = Undefined\<rparr>,
            Inr \<lparr>res_text = ascii ''hello'', from_language_iso = Str (ascii ''ru''), forcedFrom = Undefined\<rparr>]) =
       (Inr \<lparr>res_text = ascii ''hello'', from_language_iso = Str (ascii ''ru''), forcedFrom = Str (ascii ''ru'')\<rparr>,
        \<lparr>effects = [TranslateCall [0x043F, 0x0440] \<lparr>from_lang = Undefined, to_lang = ascii ''en''\<rparr>,
                    TranslateCall [0x043F, 0x0440] \<lparr>from_lang = Str (ascii ''ru''), to_lang = ascii ''en''\<rparr>],
         world = []\<rparr>)
   \<and> smartTranslate scripted [0x043F, 0x0440] (ascii ''en'')
        (start_with
           [Inr \<lparr>res_text = ascii ''hi'', from_language_iso = Str (ascii ''uk''), forcedFrom = Undefined\<rparr>]) =
       (Inr \<lparr>res_text = ascii ''hi'', from_language_iso = Str (ascii ''uk''), forcedFrom = Undefined\<rparr>,
        \<lparr>effects = [TranslateCall [0x043F, 0x0440] \<lparr>from_lang = Undefined, to_lang = ascii ''en''\<rparr>,
                    TranslateCall [0x043F, 0x0440] \<lparr>from_lang = Str (ascii ''ru''), to_lang = ascii ''en''\<rparr>],
         world = []\<rparr>)"
proof -
  let ?uk = "\<lparr>res_text = ascii ''hi'', from_language_iso = Str (ascii ''uk''), forcedFrom = Undefined\<rparr>"
  let ?ru = "\<lparr>res_text = ascii ''hello'', from_language_iso = Str (ascii ''ru''), forcedFrom = Undefined\<rparr>"
  let ?txt = "[0x043F, 0x0440] :: jsstring"
  have cyr: "\<exists>c \<in> set ?txt. 0x0400 \<le> c \<and> c \<le> 0x04FF" by simp
  have guess: "toLowerCase scripted (or_str (from_language_iso ?uk) []) \<noteq> ascii ''ru''"
    by (simp add: scripted_def or_str_def ascii_def cu_def ascii_lower_def)
  have f1: "translate scripted ?txt \<lparr>from_lang = Undefined, to_lang = ascii ''en''\<rparr>
              (world (start_with [Inr ?uk, Inr ?ru])) = (Inr ?uk, [Inr ?ru])"
    by (simp add: scripted_def start_with_def)
  have s1: "translate scripted ?txt \<lparr>from_lang = Str (ascii ''ru''), to_lang = ascii ''en''\<rparr>
              [Inr ?ru] = (Inr ?ru, [])"
    by (simp add: scripted_def)
  have f2: "translate scripted ?txt \<lparr>from_lang = Undefined, to_lang = ascii ''en''\<rparr>
              (world (start_with [Inr ?uk])) = (Inr ?uk, [])"
    by (simp add: scripted_def start_with_def)
  have s2: "translate scripted ?txt \<lparr>from_lang = Str (ascii ''ru''), to_lang = ascii ''en''\<rparr>
              [] = (Inl (Error (ascii ''offline'')), [])"
    by (simp add: scripted_def)
  from cyrillic_forces_second_call [OF cyr f1 guess s1] cyrillic_forces_second_call [OF cyr f2 guess s2]
    cyr guess
  show ?thesis by (simp add: start_with_def)
qed

section \<open>Properties of the event pipeline\<close>












lemma handleLine_matched:
  "regex_exec chat_regex line = Some match \<Longrightarrow>
   handleLine env line s =
     autoTranslateToConsole env
       \<lparr>team = at_index match 1,
        sender = Str (trim (or_str (at_index match 2) [])),
        message = Str (trim (or_str (at_index match 3) []))\<rparr>
       (console_log
          (chat_line (at_index match 1) (trim (or_str (at_index match 2) []))
             (trim (or_str (at_index match 3) []))) s)"
  by (simp add: handleLine_def Let_def)

lemma exec_player123:
  "regex_exec chat_regex (ascii ''[T]  Player123: hello world'') =
     Some [Str (ascii ''[T]  Player123: hello world''), Str (ascii ''T''),
           Str (ascii ''Player123''), Str (ascii ''hello world'')]"
  by code_simp

lemma fields_player123:
  "at_index [Str (ascii ''[T]  Player123: hello world''), Str (ascii ''T''),
           Str (ascii ''Player123''), Str (ascii ''hello world'')] 1 = Str (ascii ''T'')"
  "trim (or_str (at_index [Str (ascii ''[T]  Player123: hello world''), Str (ascii ''T''),
           Str (ascii ''Player123''), Str (ascii ''hello world'')] 2) []) = ascii ''Player123''"
  "trim (or_str (at_index [Str (ascii ''[T]  Player123: hello world''), Str (ascii ''T''),
           Str (ascii ''Player123''), Str (ascii ''hello world'')] 3) []) = ascii ''hello world''"
  by code_simp+

text \<open>
  Claim C6. The line \<open>[T]  Player123: hello world\<close> is classified as a chat event with
  team \<open>T\<close>, sender \<open>Player123\<close> and message \<open>hello world\<close>: \<open>handleLine\<close> prints
  the chat line made of these three and hands exactly this event on to
  \<open>autoTranslateToConsole\<close>.
\<close>

theorem classify_player123:
  "handleLine env (ascii ''[T]  Player123: hello world'') s =
     autoTranslateToConsole env
       \<lparr>team = Str (ascii ''T''), sender = Str (ascii ''Player123''),
        message = Str (ascii ''hello world'')\<rparr>
       (console_log (chat_line (Str (ascii ''T'')) (ascii ''Player123'') (ascii ''hello world'')) s)"
  by (simp only: handleLine_matched [OF exec_player123] fields_player123)

text \<open>
  Claim C10. For an event whose message is the empty string or is missing,
  \<open>autoTranslateToConsole\<close> returns at once: the translate capability is not called and
  nothing is printed. When such an event comes from a line that matched, \<open>handleLine\<close>
  has printed the raw chat line, and that line is the only effect.
\<close>

theorem empty_message_not_translated:
  "((message ev = Undefined \<or> message ev = Str []) \<longrightarrow> autoTranslateToConsole env ev s = (Inr (), s))
   \<and> (\<forall>match. regex_exec chat_regex line = Some match \<and> trim (or_str (at_index match 3) []) = [] \<longrightarrow>
         handleLine env line s =
           (Inr (),
            s\<lparr>effects := effects s @
                 [ConsoleLog (chat_line (at_index match 1) (trim (or_str (at_index match 2) [])) [])]\<rparr>))"
proof (intro conjI allI impI)
  assume "message ev = Undefined \<or> message ev = Str []"
  then show "autoTranslateToConsole env ev s = (Inr (), s)"
    by (auto simp: autoTranslateToConsole_def)
next
  fix match
  assume a: "regex_exec chat_regex line = Some match \<and> trim (or_str (at_index match 3) []) = []"
  then show "handleLine env line s =
           (Inr (),
            s\<lparr>effects := effects s @
                 [ConsoleLog (chat_line (at_index match 1) (trim (or_str (at_index match 2) [])) [])]\<rparr>)"
    by (simp add: handleLine_matched autoTranslateToConsole_def console_log_def)
qed

lemma exec_blank_message:
  "regex_exec chat_regex (ascii ''[CT] bob:  '') =
     Some [Str (ascii ''[CT] bob:  ''), Str (ascii ''CT''), Str (ascii ''bob''), Str (ascii '' '')]"
  by code_simp

lemma fields_blank_message:
  "at_index [Str (ascii ''[CT] bob:  ''), Str (ascii ''CT''), Str (ascii ''bob''), Str (ascii '' '')] 1
     = Str (ascii ''CT'')"
  "trim (or_str (at_index [Str (ascii ''[CT] bob:  ''), Str (ascii ''CT''), Str (ascii ''bob''), Str (ascii '' '')] 2) [])
     = ascii ''bob''"
  "trim (or_str (at_index [Str (ascii ''[CT] bob:  ''), Str (ascii ''CT''), Str (ascii ''bob''), Str (ascii '' '')] 3) [])
     = []"
  by code_simp+

theorem empty_message_not_translated_witness:
  "autoTranslateToConsole scripted \<lparr>team = Str (ascii ''CT''), sender = Str (ascii ''bob''), message = Str []\<rparr>
       (start_with []) = (Inr (), start_with [])
   \<and> autoTranslateToConsole scripted \<lparr>team = Str (ascii ''CT''), sender = Str (ascii ''bob''), message = Undefined\<rparr>
       (start_with []) = (Inr (), start_with [])
   \<and> handleLine scripted (ascii ''[CT] bob:  '') (start_with []) =
       (Inr (), \<lparr>effects = [ConsoleLog (chat_line (Str (ascii ''CT'')) (ascii ''bob'') [])], world = []\<rparr>)"
proof -
  let ?m = "[Str (ascii ''[CT] bob:  ''), Str (ascii ''CT''), Str (ascii ''bob''), Str (ascii '' '')]"
  let ?e1 = "\<lparr>team = Str (ascii ''CT''), sender = Str (ascii ''bob''), message = Str []\<rparr>"
  let ?e2 = "\<lparr>team = Str (ascii ''CT''), sender = Str (ascii ''bob''), message = Undefined\<rparr>"
  have 1: "autoTranslateToConsole scripted ?e1 (start_with []) = (Inr (), start_with [])"
    by (rule empty_message_not_translated
          [of ?e1 scripted "start_with []" "[]", THEN conjunct1, THEN mp]) simp
  have 2: "autoTranslateToConsole scripted ?e2 (start_with []) = (Inr (), start_with [])"
    by (rule empty_message_not_translated
          [of ?e2 scripted "start_with []" "[]", THEN conjunct1, THEN mp]) simp
  have pre: "regex_exec chat_regex (ascii ''[CT] bob:  '') = Some ?m
             \<and> trim (or_str (at_index ?m 3) []) = []"
    by (simp only: exec_blank_message fields_blank_message)
  from empty_message_not_translated
         [of ?e1 scripted "start_with []" "ascii ''[CT] bob:  ''", THEN conjunct2, THEN spec, of ?m,
          THEN mp, OF pre]
  have 3: "handleLine scripted (ascii ''[CT] bob:  '') (start_with []) =
       (Inr (), \<lparr>effects = [ConsoleLog (chat_line (Str (ascii ''CT'')) (ascii ''bob'') [])], world = []\<rparr>)"
    by (simp only: fields_blank_message) (simp add: start_with_def)
  from 1 2 3 show ?thesis by (intro conjI)
qed

lemma call_translate_effects:
  "effects (snd (call_translate env txt opts s)) = effects s @ [TranslateCall txt opts]"
  by (simp add: call_translate_def split: prod.splits)

lemma smartTranslate_try_effects:
  "\<exists>rest. effects (snd (smartTranslate_try env txt toLang s)) =
      effects s @ TranslateCall txt \<lparr>from_lang = Undefined, to_lang = toLang\<rparr> # rest"
proof -
  obtain r1 s1 where c1: "call_translate env txt \<lparr>from_lang = Undefined, to_lang = toLang\<rparr> s = (r1, s1)"
    by (cases "call_translate env txt \<lparr>from_lang = Undefined, to_lang = toLang\<rparr> s")
  from c1 call_translate_effects [of env "txt" "\<lparr>from_lang = Undefined, to_lang = toLang\<rparr>" s]
  have e1: "effects s1 = effects s @ [TranslateCall txt \<lparr>from_lang = Undefined, to_lang = toLang\<rparr>]"
    by simp
  obtain r2 s2 where c2: "call_translate env txt \<lparr>from_lang = Str (ascii ''ru''), to_lang = toLang\<rparr> s1 = (r2, s2)"
    by (cases "call_translate env txt \<lparr>from_lang = Str (ascii ''ru''), to_lang = toLang\<rparr> s1")
  from c2 call_translate_effects [of env "txt" "\<lparr>from_lang = Str (ascii ''ru''), to_lang = toLang\<rparr>" s1]
  have e2: "effects s2 = effects s1 @ [TranslateCall txt \<lparr>from_lang = Str (ascii ''ru''), to_lang = toLang\<rparr>]"
    by simp
  show ?thesis
    unfolding smartTranslate_try_def c1
    by (cases r1; cases r2) (simp_all add: c2 e1 e2 Let_def)
qed

lemma smartTranslate_effects:
  "\<exists>rest. effects (snd (smartTranslate env txt toLang s)) =
      effects s @ TranslateCall txt \<lparr>from_lang = Undefined, to_lang = toLang\<rparr> # rest"
proof -
  obtain r1 s1 where t: "smartTranslate_try env txt toLang s = (r1, s1)"
    by (cases "smartTranslate_try env txt toLang s")
  from t smartTranslate_try_effects [of env "txt" toLang s] obtain rest
    where "effects s1 = effects s @ TranslateCall txt \<lparr>from_lang = Undefined, to_lang = toLang\<rparr> # rest"
    by auto
  then show ?thesis
    unfolding smartTranslate_def t by (cases r1) (simp_all add: console_log_def)
qed

lemma autoTranslateToConsole_effects:
  assumes "message ev = Str m" "m \<noteq> []"
  shows "\<exists>rest. effects (snd (autoTranslateToConsole env ev s)) =
      effects s @ TranslateCall m \<lparr>from_lang = Undefined, to_lang = AUTO_TRANSLATE_TARGET\<rparr> # rest"
proof -
  obtain r1 s1 where t: "smartTranslate env m AUTO_TRANSLATE_TARGET s = (r1, s1)"
    by (cases "smartTranslate env m AUTO_TRANSLATE_TARGET s")
  from t smartTranslate_effects [of env m AUTO_TRANSLATE_TARGET s] obtain rest
    where "effects s1 = effects s @ TranslateCall m \<lparr>from_lang = Undefined, to_lang = AUTO_TRANSLATE_TARGET\<rparr> # rest"
    by auto
  then show ?thesis
    using assms unfolding autoTranslateToConsole_def
    by (cases r1) (simp_all add: t AUTO_TRANSLATE_def console_log_def Let_def)
qed

text \<open>
  Claim C9. For every line that is classified as a chat event, the first effect of
  handling it is the raw chat line (team, sender, message). The translation request for
  the event, when there is one, is the effect right after it, and whatever else the
  handling of this event does (a forced second request, a warning, the translated line)
  comes later still. The effects of one call are appended in program order, and what other
  events do can only fall in between them, so the translated line of an event never
  precedes the raw line of that event.
\<close>

theorem raw_line_before_translation:
  assumes "regex_exec chat_regex line = Some match"
  shows "\<exists>rest. effects (snd (handleLine env line s)) =
           effects s @
           ConsoleLog (chat_line (at_index match 1) (trim (or_str (at_index match 2) []))
                         (trim (or_str (at_index match 3) []))) # rest
         \<and> (trim (or_str (at_index match 3) []) = [] \<longrightarrow> rest = [])
         \<and> (trim (or_str (at_index match 3) []) \<noteq> [] \<longrightarrow>
              (\<exists>later. rest = TranslateCall (trim (or_str (at_index match 3) []))
                                 \<lparr>from_lang = Undefined, to_lang = AUTO_TRANSLATE_TARGET\<rparr> # later))"
proof (cases "trim (or_str (at_index match 3) []) = []")
  case True
  then have "effects (snd (handleLine env line s)) =
      effects s @ [ConsoleLog (chat_line (at_index match 1) (trim (or_str (at_index match 2) []))
                         (trim (or_str (at_index match 3) [])))]"
    by (simp add: handleLine_matched [OF assms] autoTranslateToConsole_def console_log_def)
  with True show ?thesis by simp
next
  case False
  let ?ev = "\<lparr>team = at_index match 1,
        sender = Str (trim (or_str (at_index match 2) [])),
        message = Str (trim (or_str (at_index match 3) []))\<rparr>"
  let ?raw = "chat_line (at_index match 1) (trim (or_str (at_index match 2) []))
             (trim (or_str (at_index match 3) []))"
  have "message ?ev = Str (trim (or_str (at_index match 3) []))" by simp
  from autoTranslateToConsole_effects [OF this False, of env "console_log ?raw s"]
  obtain later where "effects (snd (autoTranslateToConsole env ?ev (console_log ?raw s))) =
     effects (console_log ?raw s) @
       TranslateCall (trim (or_str (at_index match 3) [])) \<lparr>from_lang = Undefined, to_lang = AUTO_TRANSLATE_TARGET\<rparr> # later"
    by blast
  then have "effects (snd (handleLine env line s)) =
     effects s @ ConsoleLog ?raw #
       (TranslateCall (trim (or_str (at_index match 3) [])) \<lparr>from_lang = Undefined, to_lang = AUTO_TRANSLATE_TARGET\<rparr> # later)"
    by (simp add: handleLine_matched [OF assms] console_log_def)
  with False show ?thesis by (intro exI conjI) (assumption, simp_all)
qed

theorem raw_line_before_translation_witness:
  "regex_exec chat_regex (ascii ''[T]  Player123: hello world'') =
     Some [Str (ascii ''[T]  Player123: hello world''), Str (ascii ''T''),
           Str (ascii ''Player123''), Str (ascii ''hello world'')]
   \<and> (\<exists>rest. effects (snd (handleLine scripted (ascii ''[T]  Player123: hello world'') (start_with []))) =
           ConsoleLog (chat_line (Str (ascii ''T'')) (ascii ''Player123'') (ascii ''hello world'')) # rest
         \<and> (\<exists>later. rest = TranslateCall (ascii ''hello world'')
                                 \<lparr>from_lang = Undefined, to_lang = AUTO_TRANSLATE_TARGET\<rparr> # later))"
proof -
  have ne: "ascii ''hello world'' \<noteq> []" by (simp add: ascii_def)
  from raw_line_before_translation [OF exec_player123, of scripted "start_with []"] ne
  show ?thesis
    by (simp only: fields_player123 exec_player123) (simp add: start_with_def)
qed

lemma exec_blank_sender:
  "regex_exec chat_regex (ascii ''[T]  : hello'') =
     Some [Str (ascii ''[T]  : hello''), Str (ascii ''T''), Str (ascii '' ''), Str (ascii ''hello'')]"
  by code_simp

lemma fields_blank_sender:
  "at_index [Str (ascii ''[T]  : hello''), Str (ascii ''T''), Str (ascii '' ''), Str (ascii ''hello'')] 1
     = Str (ascii ''T'')"
  "trim (or_str (at_index [Str (ascii ''[T]  : hello''), Str (ascii ''T''), Str (ascii '' ''), Str (ascii ''hello'')] 2) [])
     = []"
  "trim (or_str (at_index [Str (ascii ''[T]  : hello''), Str (ascii ''T''), Str (ascii '' ''), Str (ascii ''hello'')] 3) [])
     = ascii ''hello''"
  by code_simp+

text \<open>
  Claim C7, as stated, fails. The line \<open>[T]  : hello\<close> matches the pattern with a
  sender that consists of one space, which is empty after trimming; the line is printed
  all the same, with an empty sender, and its message is sent to the translate capability.
\<close>

theorem blank_sender_is_printed_and_translated:
  "regex_exec chat_regex (ascii ''[T]  : hello'') =
     Some [Str (ascii ''[T]  : hello''), Str (ascii ''T''), Str (ascii '' ''), Str (ascii ''hello'')]
   \<and> trim (ascii '' '') = []
   \<and> handleLine scripted (ascii ''[T]  : hello'')
        (start_with [Inr \<lparr>res_text = ascii ''hello'', from_language_iso = Str (ascii ''en''),
                          forcedFrom = Undefined\<rparr>]) =
       (Inr (),
        \<lparr>effects = [ConsoleLog (chat_line (Str (ascii ''T'')) [] (ascii ''hello'')),
                    TranslateCall (ascii ''hello'') \<lparr>from_lang = Undefined, to_lang = ascii ''en''\<rparr>],
         world = []\<rparr>)"
  by code_simp

text \<open>
  Claim C7, amended. A line that matches the pattern is never rejected, also when its
  sender or its message is empty after trimming: the raw chat line is printed with the
  trimmed sender and message, and the event goes on to \<open>autoTranslateToConsole\<close>. When
  the trimmed message is empty, the printed raw line is all that happens and no translation
  is dispatched.
\<close>

theorem matched_line_never_rejected:
  assumes "regex_exec chat_regex line = Some match"
  shows "handleLine env line s =
           autoTranslateToConsole env
             \<lparr>team = at_index match 1,
              sender = Str (trim (or_str (at_index match 2) [])),
              message = Str (trim (or_str (at_index match 3) []))\<rparr>
             (s\<lparr>effects := effects s @
                  [ConsoleLog (chat_line (at_index match 1) (trim (or_str (at_index match 2) []))
                                 (trim (or_str (at_index match 3) [])))]\<rparr>)
         \<and> (trim (or_str (at_index match 3) []) = [] \<longrightarrow>
              handleLine env line s =
                (Inr (),
                 s\<lparr>effects := effects s @
                      [ConsoleLog (chat_line (at_index match 1) (trim (or_str (at_index match 2) [])) [])]\<rparr>))"
  by (simp add: handleLine_matched [OF assms] console_log_def autoTranslateToConsole_def)

theorem matched_line_never_rejected_witness:
  "regex_exec chat_regex (ascii ''[T]  : hello'') =
     Some [Str (ascii ''[T]  : hello''), Str (ascii ''T''), Str (ascii '' ''), Str (ascii ''hello'')]
   \<and> handleLine scripted (ascii ''[T]  : hello'') (start_with []) =
       autoTranslateToConsole scripted
         \<lparr>team = Str (ascii ''T''), sender = Str [], message = Str (ascii ''hello'')\<rparr>
         \<lparr>effects = [ConsoleLog (chat_line (Str (ascii ''T'')) [] (ascii ''hello''))], world = []\<rparr>"
proof -
  from matched_line_never_rejected [OF exec_blank_sender, of scripted "start_with []"]
  show ?thesis
    by (simp only: fields_blank_sender exec_blank_sender) (simp add: start_with_def)
qed

text \<open>
  Claim C8. A line in which the chat pattern does not occur yields no event and is
  ignored silently: \<open>handleLine\<close> returns normally, prints nothing and calls nothing.
\<close>

theorem non_chat_line_ignored:
  "\<not> chat_pattern_occurs line \<Longrightarrow> handleLine env line s = (Inr (), s)"
proof -
  assume "\<not> chat_pattern_occurs line"
  then have "regex_exec chat_regex line = None"
    by (simp add: regex_exec_None_iff occurs_in_chat_regex)
  then show ?thesis by (simp add: handleLine_def)
qed

lemma exec_kill_feed: "regex_exec chat_regex (ascii ''[T] Bob killed Alice with ak47'') = None"
  by code_simp

theorem non_chat_line_ignored_witness:
  "\<not> chat_pattern_occurs (ascii ''[T] Bob killed Alice with ak47'')
   \<and> handleLine scripted (ascii ''[T] Bob killed Alice with ak47'') (start_with []) = (Inr (), start_with [])"
proof -
  have n: "\<not> chat_pattern_occurs (ascii ''[T] Bob killed Alice with ak47'')"
    using exec_kill_feed by (simp add: regex_exec_None_iff occurs_in_chat_regex)
  from non_chat_line_ignored [OF n, of scripted "start_with []"] n show ?thesis by simp
qed

section \<open>Properties of the tailer\<close>

lemma readline_lines_skip:
  "no_eol l \<Longrightarrow> tail \<noteq> [] \<Longrightarrow> readline_lines cur (l @ tail) = readline_lines (cur @ l) tail"
proof (induction l arbitrary: cur)
  case Nil
  show ?case by simp
next
  case (Cons x xs)
  from Cons.prems(1) have x: "x \<noteq> 0x0A" "x \<noteq> 0x0D" and xs: "no_eol xs"
    by (simp_all add: no_eol_def)
  from Cons.prems(2) obtain d cs where dc: "xs @ tail = d # cs" by (cases "xs @ tail") auto
  have "readline_lines cur ((x # xs) @ tail) = readline_lines (cur @ [x]) (xs @ tail)"
    using x by (simp add: dc)
  also have "\<dots> = readline_lines ((cur @ [x]) @ xs) tail"
    by (rule Cons.IH [OF xs Cons.prems(2)])
  finally show ?case by simp
qed

lemma readline_lines_eol:
  assumes "e = [0x0A] \<or> e = [0x0D, 0x0A] \<or> (e = [0x0D] \<and> take 1 rest \<noteq> [0x0A])"
  shows "readline_lines cur (e @ rest) = cur # readline_lines [] rest"
  using assms by (cases rest) auto

lemma readline_lines_rest:
  "no_eol p \<Longrightarrow> readline_lines cur p = (if cur @ p = [] then [] else [cur @ p])"
proof (induction p arbitrary: cur)
  case Nil
  show ?case by simp
next
  case (Cons x xs)
  from Cons.prems have x: "x \<noteq> 0x0A" "x \<noteq> 0x0D" and xs: "no_eol xs"
    by (simp_all add: no_eol_def)
  show ?case
  proof (cases xs)
    case Nil
    with x show ?thesis by simp
  next
    case (Cons d cs)
    with x have "readline_lines cur (x # xs) = readline_lines (cur @ [x]) xs" by simp
    with Cons.IH [OF xs, of "cur @ [x]"] show ?thesis by simp
  qed
qed

lemma readline_lines_join:
  "split_at_eols lls p \<Longrightarrow>
   readline_lines [] (join_lines lls p) = map fst lls @ (if p = [] then [] else [p])"
proof (induction lls)
  case Nil
  then have "no_eol p" by simp
  from readline_lines_rest [OF this, of "[]"] show ?case by simp
next
  case (Cons le rest)
  obtain l e where le: "le = (l, e)" by (cases le)
  from Cons.prems le have l: "no_eol l"
    and e: "e = [0x0A] \<or> e = [0x0D, 0x0A] \<or> (e = [0x0D] \<and> take 1 (join_lines rest p) \<noteq> [0x0A])"
    and r: "split_at_eols rest p" by simp_all
  from e have ne: "e @ join_lines rest p \<noteq> []" by auto
  have "readline_lines [] (join_lines (le # rest) p) = readline_lines [] (l @ (e @ join_lines rest p))"
    by (simp add: le)
  also have "\<dots> = readline_lines ([] @ l) (e @ join_lines rest p)"
    by (rule readline_lines_skip [OF l ne])
  also have "\<dots> = ([] @ l) # readline_lines [] (join_lines rest p)"
    by (rule readline_lines_eol [OF e])
  finally show ?case using Cons.IH [OF r] by (simp add: le)
qed

lemma split_at_eols_LF_first:
  assumes "split_at_eols lls p" "join_lines lls p = 0x0A # xs"
  shows "\<exists>rest. lls = ([], [0x0A]) # rest \<and> join_lines rest p = xs"
proof (cases lls)
  case Nil
  with assms show ?thesis by (simp add: no_eol_def)
next
  case (Cons le rest)
  obtain l e where le: "le = (l, e)" by (cases le)
  from assms(1) Cons le have l: "no_eol l"
    and e: "e = [0x0A] \<or> e = [0x0D, 0x0A] \<or> (e = [0x0D] \<and> take 1 (join_lines rest p) \<noteq> [0x0A])"
    by simp_all
  from assms(2) Cons le have j: "l @ e @ join_lines rest p = 0x0A # xs" by simp
  have "l = []"
  proof (cases l)
    case Nil
    then show ?thesis .
  next
    case (Cons y ys)
    with j have "y = 0x0A" by simp
    with l Cons show ?thesis by (simp add: no_eol_def)
  qed
  with j e have "e = [0x0A]" "join_lines rest p = xs" by auto
  with \<open>l = []\<close> Cons le show ?thesis by simp
qed

lemma split_at_eols_exists: "\<exists>lls p. t = join_lines lls p \<and> split_at_eols lls p"
proof (induction t)
  case Nil
  have "[] = join_lines [] []" "split_at_eols [] []" by (simp_all add: no_eol_def)
  then show ?case by blast
next
  case (Cons x xs)
  then obtain lls p where j: "xs = join_lines lls p" and sp: "split_at_eols lls p" by blast
  consider (lf) "x = 0x0A" | (crlf) "x = 0x0D" "take 1 xs = [0x0A]"
    | (cr) "x = 0x0D" "take 1 xs \<noteq> [0x0A]" | (plain) "x \<noteq> 0x0A" "x \<noteq> 0x0D"
    by blast
  then show ?case
  proof cases
    case lf
    with j sp have "x # xs = join_lines (([], [0x0A]) # lls) p"
      and "split_at_eols (([], [0x0A]) # lls) p" by (simp_all add: no_eol_def)
    then show ?thesis by blast
  next
    case crlf
    from crlf(2) obtain xs' where xs': "xs = 0x0A # xs'" by (cases xs) auto
    with j have "join_lines lls p = 0x0A # xs'" by simp
    from split_at_eols_LF_first [OF sp this] obtain rest
      where rest: "lls = ([], [0x0A]) # rest" "join_lines rest p = xs'" by blast
    with sp have "split_at_eols rest p" by simp
    with rest crlf(1) xs' have "x # xs = join_lines (([], [0x0D, 0x0A]) # rest) p"
      and "split_at_eols (([], [0x0D, 0x0A]) # rest) p" by (simp_all add: no_eol_def)
    then show ?thesis by blast
  next
    case cr
    with j sp have "x # xs = join_lines (([], [0x0D]) # lls) p"
      and "split_at_eols (([], [0x0D]) # lls) p" by (simp_all add: no_eol_def)
    then show ?thesis by blast
  next
    case plain
    show ?thesis
    proof (cases lls)
      case Nil
      with j sp plain have "x # xs = join_lines [] (x # p)" and "split_at_eols [] (x # p)"
        by (simp_all add: no_eol_def)
      then show ?thesis by blast
    next
      case (Cons le rest)
      obtain l e where le: "le = (l, e)" by (cases le)
      with Cons j sp plain have "x # xs = join_lines ((x # l, e) # rest) p"
        and "split_at_eols ((x # l, e) # rest) p" by (simp_all add: no_eol_def)
      then show ?thesis by blast
    qed
  qed
qed

lemma createReadStream_within:
  assumes "start < end_incl" "length content \<le> end_incl"
  shows "createReadStream content start end_incl = Inr (take (end_incl - start) (drop start content))"
  using assms by (simp add: createReadStream_def)

text \<open>
  Claim C3, amended. In every notification cycle in which the file has grown from the
  last known size \<open>S\<close> to \<open>S + N\<close> and holds no more than \<open>S + N\<close> bytes when it is
  read, the listener asks for the bytes from offset \<open>S\<close> to offset \<open>S + N\<close> inclusive and
  receives exactly the appended bytes, those at the offsets from \<open>S\<close> up to but not
  including \<open>S + N\<close>. Their text, whatever it is, is cut at its ends of line (\<open>\n\<close>,
  \<open>\r\n\<close> or \<open>\r\<close>) and the lines are emitted in order; text after the last end of
  line, if there is any, is emitted as a last line. The last known size of the next cycle
  is \<open>S + N\<close>.
\<close>

theorem growth_cycle_reads_appended_range:
  assumes grow: "st_size (last_stat w) < st_size cur_stat"
    and whole: "length content \<le> st_size cur_stat"
  shows "createReadStream content (st_size (last_stat w)) (st_size cur_stat) =
           Inr (take (st_size cur_stat - st_size (last_stat w)) (drop (st_size (last_stat w)) content))
         \<and> notify env content cur_stat w =
             (Inr \<lparr>reads = [(st_size (last_stat w), st_size cur_stat)],
                   lines = readline_lines []
                             (utf8_decode env (take (st_size cur_stat - st_size (last_stat w))
                                                    (drop (st_size (last_stat w)) content)))\<rparr>,
              w\<lparr>last_stat := cur_stat\<rparr>)
         \<and> (\<exists>lls p.
               utf8_decode env (take (st_size cur_stat - st_size (last_stat w))
                                     (drop (st_size (last_stat w)) content)) = join_lines lls p
               \<and> split_at_eols lls p
               \<and> readline_lines []
                    (utf8_decode env (take (st_size cur_stat - st_size (last_stat w))
                                           (drop (st_size (last_stat w)) content)))
                  = map fst lls @ (if p = [] then [] else [p]))
         \<and> st_size (last_stat (snd (notify env content cur_stat w))) = st_size cur_stat"
proof -
  let ?t = "utf8_decode env (take (st_size cur_stat - st_size (last_stat w))
                                  (drop (st_size (last_stat w)) content))"
  note rd = createReadStream_within [OF grow whole]
  have n: "notify env content cur_stat w =
             (Inr \<lparr>reads = [(st_size (last_stat w), st_size cur_stat)], lines = readline_lines [] ?t\<rparr>,
              w\<lparr>last_stat := cur_stat\<rparr>)"
    using grow by (simp add: notify_def watch_listener_def rd)
  from split_at_eols_exists [of ?t] obtain lls p
    where j: "?t = join_lines lls p" and sp: "split_at_eols lls p" by blast
  from readline_lines_join [OF sp] j
  have "readline_lines [] ?t = map fst lls @ (if p = [] then [] else [p])" by simp
  with j sp have ex: "\<exists>lls p. ?t = join_lines lls p \<and> split_at_eols lls p
       \<and> readline_lines [] ?t = map fst lls @ (if p = [] then [] else [p])" by blast
  from rd n ex show ?thesis by simp
qed

theorem growth_cycle_reads_appended_range_witness:
  "st_size (last_stat \<lparr>last_stat = \<lparr>st_size = 2\<rparr>\<rparr>) < st_size \<lparr>st_size = 9\<rparr>
   \<and> length [0x61, 0x0A, 0x62, 0x63, 0x0D, 0x0A, 0x64, 0x0A, 0x65 :: byte] \<le> st_size \<lparr>st_size = 9\<rparr>
   \<and> createReadStream [0x61, 0x0A, 0x62, 0x63, 0x0D, 0x0A, 0x64, 0x0A, 0x65] 2 9 =
        Inr [0x62, 0x63, 0x0D, 0x0A, 0x64, 0x0A, 0x65]
   \<and> notify scripted [0x61, 0x0A, 0x62, 0x63, 0x0D, 0x0A, 0x64, 0x0A, 0x65] \<lparr>st_size = 9\<rparr>
        \<lparr>last_stat = \<lparr>st_size = 2\<rparr>\<rparr> =
       (Inr \<lparr>reads = [(2, 9)], lines = [ascii ''bc'', ascii ''d'', ascii ''e'']\<rparr>,
        \<lparr>last_stat = \<lparr>st_size = 9\<rparr>\<rparr>)"
proof -
  let ?w = "\<lparr>last_stat = \<lparr>st_size = 2\<rparr>\<rparr>"
  let ?c = "[0x61, 0x0A, 0x62, 0x63, 0x0D, 0x0A, 0x64, 0x0A, 0x65] :: byte list"
  have grow: "st_size (last_stat ?w) < st_size \<lparr>st_size = 9\<rparr>" by simp
  have whole: "length ?c \<le> st_size \<lparr>st_size = 9\<rparr>" by simp
  have ev: "readline_lines [] (utf8_decode scripted [0x62, 0x63, 0x0D, 0x0A, 0x64, 0x0A, 0x65])
            = [ascii ''bc'', ascii ''d'', ascii ''e'']"
    by code_simp
  from growth_cycle_reads_appended_range [OF grow whole, of scripted] grow whole
  show ?thesis by (simp add: ev)
qed

text \<open>
  Claim C3, as stated, fails: the lines handed on are not only the complete ones. When the
  file grows from 0 to the 3 bytes \<open>a\<close>, end of line, \<open>b\<close>, the listener emits the two
  lines \<open>a\<close> and \<open>b\<close>, although only \<open>a\<close> is closed by an end of line.
\<close>

theorem unterminated_text_is_emitted:
  "notify scripted [0x61, 0x0A, 0x62] \<lparr>st_size = 3\<rparr> \<lparr>last_stat = \<lparr>st_size = 0\<rparr>\<rparr> =
     (Inr \<lparr>reads = [(0, 3)], lines = [ascii ''a'', ascii ''b'']\<rparr>, \<lparr>last_stat = \<lparr>st_size = 3\<rparr>\<rparr>)
   \<and> complete_lines [] (utf8_decode scripted [0x61, 0x0A, 0x62]) = [ascii ''a'']"
  by code_simp

text \<open>
  The upper bound of the byte range is the current size and it is inclusive: when the file
  has grown beyond the observed size by the time it is read, the byte at the offset of
  the observed size is delivered as well, one byte more than was appended.
\<close>

lemma read_reaches_past_current_size:
  assumes "start \<le> end_incl" "end_incl < length content"
  shows "\<exists>bytes. createReadStream content start end_incl = Inr bytes
           \<and> length bytes = end_incl - start + 1 \<and> last bytes = content ! end_incl"
proof -
  let ?b = "take (Suc end_incl - start) (drop start content)"
  from assms have len: "length ?b = Suc end_incl - start" by simp
  with assms have "?b \<noteq> []" by auto
  then have "last ?b = ?b ! (length ?b - 1)" by (rule last_conv_nth)
  also from assms len have "\<dots> = content ! end_incl" by simp
  finally have "last ?b = content ! end_incl" .
  with assms len show ?thesis by (simp add: createReadStream_def)
qed

lemma last_known_sizes_eq:
  "last_known_sizes env w obs = st_size (last_stat w) # map (\<lambda>ob. st_size (snd ob)) obs"
  by (induction obs arbitrary: w) (auto simp: notify_def)

text \<open>
  Claim C4, as stated, fails: a decrease of the size does not reset the last known size
  to 0. After the size went from 5 to 2 the last known size is 2, and the next growth, to
  4, is read from offset 2, not from offset 0.
\<close>

theorem shrink_keeps_observed_size:
  "st_size (last_stat (snd (notify scripted [0x61, 0x0A] \<lparr>st_size = 2\<rparr> \<lparr>last_stat = \<lparr>st_size = 5\<rparr>\<rparr>))) = 2
   \<and> fst (notify scripted [0x61, 0x0A, 0x62, 0x0A] \<lparr>st_size = 4\<rparr>
            (snd (notify scripted [0x61, 0x0A] \<lparr>st_size = 2\<rparr> \<lparr>last_stat = \<lparr>st_size = 5\<rparr>\<rparr>))) =
       Inr \<lparr>reads = [(2, 4)], lines = [ascii ''b'']\<rparr>"
  by code_simp

text \<open>
  Claim C4, amended. Whenever the observed size is not larger than the last known size,
  the listener opens no read and emits no lines in that cycle, and the last known size
  becomes the observed size. The next growth is read from the last known size on. As long
  as the observed sizes do not decrease, the last known size does not decrease.
\<close>

theorem shrink_cycle_reads_nothing:
  "(st_size cur_stat \<le> st_size (last_stat w) \<longrightarrow>
      notify env content cur_stat w = (Inr \<lparr>reads = [], lines = []\<rparr>, w\<lparr>last_stat := cur_stat\<rparr>))
   \<and> (st_size (last_stat w) < st_size next_stat \<longrightarrow>
        (\<exists>lns. fst (notify env content' next_stat w) =
                 Inr \<lparr>reads = [(st_size (last_stat w), st_size next_stat)], lines = lns\<rparr>))
   \<and> (sorted (st_size (last_stat w) # map (\<lambda>ob. st_size (snd ob)) obs) \<longrightarrow>
        sorted (last_known_sizes env w obs))"
  by (simp add: notify_def watch_listener_def createReadStream_def last_known_sizes_eq)

theorem shrink_cycle_reads_nothing_witness:
  "notify scripted [0x61, 0x0A] \<lparr>st_size = 2\<rparr> \<lparr>last_stat = \<lparr>st_size = 5\<rparr>\<rparr> =
     (Inr \<lparr>reads = [], lines = []\<rparr>, \<lparr>last_stat = \<lparr>st_size = 2\<rparr>\<rparr>)
   \<and> (\<exists>lns. fst (notify scripted [0x61, 0x0A, 0x62, 0x0A] \<lparr>st_size = 4\<rparr> \<lparr>last_stat = \<lparr>st_size = 2\<rparr>\<rparr>) =
              Inr \<lparr>reads = [(2, 4)], lines = lns\<rparr>)
   \<and> sorted (last_known_sizes scripted \<lparr>last_stat = \<lparr>st_size = 2\<rparr>\<rparr>
                [([0x61, 0x0A, 0x62, 0x0A], \<lparr>st_size = 4\<rparr>), ([0x61, 0x0A, 0x62, 0x0A], \<lparr>st_size = 4\<rparr>),
                 ([0x61, 0x0A, 0x62, 0x0A, 0x63], \<lparr>st_size = 5\<rparr>)])"
proof -
  have 1: "notify scripted [0x61, 0x0A] \<lparr>st_size = 2\<rparr> \<lparr>last_stat = \<lparr>st_size = 5\<rparr>\<rparr> =
     (Inr \<lparr>reads = [], lines = []\<rparr>, \<lparr>last_stat = \<lparr>st_size = 2\<rparr>\<rparr>)"
    using shrink_cycle_reads_nothing
        [of "\<lparr>st_size = 2\<rparr>" "\<lparr>last_stat = \<lparr>st_size = 5\<rparr>\<rparr>" scripted "[0x61, 0x0A]" "\<lparr>st_size = 2\<rparr>" "[]" "[]",
         THEN conjunct1]
    by simp
  have 2: "\<exists>lns. fst (notify scripted [0x61, 0x0A, 0x62, 0x0A] \<lparr>st_size = 4\<rparr> \<lparr>last_stat = \<lparr>st_size = 2\<rparr>\<rparr>) =
              Inr \<lparr>reads = [(2, 4)], lines = lns\<rparr>"
    using shrink_cycle_reads_nothing
        [of "\<lparr>st_size = 2\<rparr>" "\<lparr>last_stat = \<lparr>st_size = 2\<rparr>\<rparr>" scripted "[]" "\<lparr>st_size = 4\<rparr>"
            "[0x61, 0x0A, 0x62, 0x0A]" "[]", THEN conjunct2, THEN conjunct1]
    by simp
  have 3: "sorted (last_known_sizes scripted \<lparr>last_stat = \<lparr>st_size = 2\<rparr>\<rparr>
                [([0x61, 0x0A, 0x62, 0x0A], \<lparr>st_size = 4\<rparr>), ([0x61, 0x0A, 0x62, 0x0A], \<lparr>st_size = 4\<rparr>),
                 ([0x61, 0x0A, 0x62, 0x0A, 0x63], \<lparr>st_size = 5\<rparr>)])"
    using shrink_cycle_reads_nothing
        [of "\<lparr>st_size = 2\<rparr>" "\<lparr>last_stat = \<lparr>st_size = 2\<rparr>\<rparr>" scripted "[]" "\<lparr>st_size = 4\<rparr>" "[]"
            "[([0x61, 0x0A, 0x62, 0x0A], \<lparr>st_size = 4\<rparr>), ([0x61, 0x0A, 0x62, 0x0A], \<lparr>st_size = 4\<rparr>),
              ([0x61, 0x0A, 0x62, 0x0A, 0x63], \<lparr>st_size = 5\<rparr>)]", THEN conjunct2, THEN conjunct2]
    by simp
  from 1 2 3 show ?thesis by (intro conjI)
qed

end
